theory Spec2Isabelle
  imports Main "HOL-Library.Sublist" "HOL-Library.AList"
begin

section \<open>JavaScript values as the dashboard uses them\<close>

text \<open>
  Strings are lists of code units. A template literal \<open>`${x}`\<close> renders a number in
  decimal; \<open>show_nat\<close> and \<open>show_int\<close> are that rendering for integers.
\<close>

definition digit_char :: "nat \<Rightarrow> char" where
  "digit_char d = char_of (48 + d)"

function show_nat :: "nat \<Rightarrow> string" where
  "show_nat n = (if n < 10 then [digit_char n] else show_nat (n div 10) @ [digit_char (n mod 10)])"
  by pat_completeness auto
termination
  by (relation "measure id") auto

declare show_nat.simps [simp del]

definition show_int :: "int \<Rightarrow> string" where
  "show_int i = (if i < 0 then CHR ''-'' # show_nat (nat (- i)) else show_nat (nat i))"

text \<open>
  A value parsed from JSON. Numbers are kept as integers: the client only tests a number
  for truthiness and renders it inside a message.
\<close>

datatype json =
    JNull
  | JBool bool
  | JNum int
  | JStr string
  | JArr "json list"
  | JObj "(string \<times> json) list"

text \<open>The result of reading a property: \<open>undefined\<close> or a value.\<close>

datatype js_value = Undefined | Val json

text \<open>Every exception the client meets is an Error object; each carries its message.\<close>

datatype js_error = Error string | SyntaxError string | TypeError string

fun message :: "js_error \<Rightarrow> string" where
  "message (Error m) = m"
| "message (SyntaxError m) = m"
| "message (TypeError m) = m"

fun truthy :: "js_value \<Rightarrow> bool" where
  "truthy Undefined = False"
| "truthy (Val JNull) = False"
| "truthy (Val (JBool b)) = b"
| "truthy (Val (JNum n)) = (n \<noteq> 0)"
| "truthy (Val (JStr s)) = (s \<noteq> [])"
| "truthy (Val (JArr xs)) = True"
| "truthy (Val (JObj kvs)) = True"

fun join_comma :: "string list \<Rightarrow> string" where
  "join_comma [] = []"
| "join_comma [s] = s"
| "join_comma (s # t # ss) = s @ CHR '','' # join_comma (t # ss)"

text \<open>\<open>String(v)\<close>: an array joins its elements with commas, \<open>null\<close> elements empty.\<close>

fun js_String :: "json \<Rightarrow> string"
  and js_element :: "json \<Rightarrow> string" where
  "js_String JNull = ''null''"
| "js_String (JBool b) = (if b then ''true'' else ''false'')"
| "js_String (JNum n) = show_int n"
| "js_String (JStr s) = s"
| "js_String (JArr xs) = join_comma (map js_element xs)"
| "js_String (JObj kvs) = ''[object Object]''"
| "js_element JNull = []"
| "js_element (JBool b) = (if b then ''true'' else ''false'')"
| "js_element (JNum n) = show_int n"
| "js_element (JStr s) = s"
| "js_element (JArr xs) = join_comma (map js_element xs)"
| "js_element (JObj kvs) = ''[object Object]''"

fun value_String :: "js_value \<Rightarrow> string" where
  "value_String Undefined = ''undefined''"
| "value_String (Val j) = js_String j"

text \<open>
  \<open>json.name\<close>, for the names the dashboard reads (\<open>detail\<close>, \<open>error\<close>, \<open>summary\<close>,
  \<open>raw_text\<close>, \<open>sentiment\<close>, \<open>bias\<close>), none of which an object inherits: reading a
  property of \<open>null\<close> throws a TypeError; an object gives the member (the last one of
  that name, as \<open>JSON.parse\<close> keeps it) or \<open>undefined\<close>; the other values have no
  property of these names.
\<close>

fun get_prop :: "json \<Rightarrow> string \<Rightarrow> js_error + js_value" where
  "get_prop JNull name = Inl (TypeError (''Cannot read properties of null (reading '' @ name @ '')''))"
| "get_prop (JObj kvs) name =
     Inr (case map_of (rev kvs) name of None \<Rightarrow> Undefined | Some v \<Rightarrow> Val v)"
| "get_prop j name = Inr Undefined"

text \<open>\<open>a || b\<close> on strings, where \<open>a\<close> may be absent: the empty string is falsy too.\<close>

definition or_else :: "string option \<Rightarrow> string \<Rightarrow> string" where
  "or_else a b = (case a of None \<Rightarrow> b | Some s \<Rightarrow> if s = [] then b else s)"

section \<open>The API client (lib/api)\<close>

record env =
  VITE_API_URL :: "string option"
  VITE_API_KEY :: "string option"

definition API_URL :: "env \<Rightarrow> string" where
  "API_URL e = or_else (VITE_API_URL e) ''http://127.0.0.1:8000''"

definition API_KEY :: "env \<Rightarrow> string" where
  "API_KEY e = or_else (VITE_API_KEY e) ''test123''"

definition headers :: "env \<Rightarrow> (string \<times> string) list" where
  "headers e =
     [(''x-api-key'', API_KEY e),
      (''Content-Type'', ''application/json''),
      (''Accept'', ''application/json'')]"

datatype http_method = GET | POST

record fetch_opts =
  opt_method :: "http_method option"
  opt_headers :: "(string \<times> string) list option"

record request =
  req_url :: string
  req_method :: http_method
  req_headers :: "(string \<times> string) list"

record response =
  ok :: bool
  status :: nat
  body :: "js_error + string"

text \<open>
  The network is a parameter: \<open>fetch\<close> answers a request in a world \<open>'w\<close> and returns
  the world after it; \<open>Inl\<close> is a rejected promise. \<open>JSON.parse\<close> is a parameter too:
  \<open>Inl m\<close> is a SyntaxError with message \<open>m\<close>.
\<close>

type_synonym 'w fetch_fn = "request \<Rightarrow> 'w \<Rightarrow> (js_error + response) \<times> 'w"
type_synonym parser = "string \<Rightarrow> string + json"

definition JSON_parse :: "parser \<Rightarrow> string \<Rightarrow> js_error + json" where
  "JSON_parse parse s = (case parse s of Inl m \<Rightarrow> Inl (SyntaxError m) | Inr j \<Rightarrow> Inr j)"

text \<open>\<open>{...headers(), ...(opts.headers || {})}\<close>: later members overwrite earlier ones.\<close>

definition spread :: "(string \<times> string) list \<Rightarrow> (string \<times> string) list \<Rightarrow> (string \<times> string) list" where
  "spread base extra = fold (\<lambda>(k, v). AList.update k v) extra base"

definition build_request :: "env \<Rightarrow> string \<Rightarrow> fetch_opts \<Rightarrow> request" where
  "build_request e path opts =
     \<lparr> req_url = API_URL e @ path,
       req_method = (case opt_method opts of None \<Rightarrow> GET | Some m \<Rightarrow> m),
       req_headers = spread (headers e) (case opt_headers opts of None \<Rightarrow> [] | Some h \<Rightarrow> h) \<rparr>"

text \<open>
  The body of the \<open>try\<close> block of \<open>fetchJson\<close>:
  \<open>const json = JSON.parse(text); throw new Error(json.detail || json.error || text)\<close>.
  \<open>Inr ()\<close> would be leaving the block without an exception.
\<close>

definition try_block :: "parser \<Rightarrow> string \<Rightarrow> js_error + unit" where
  "try_block parse text =
     (case JSON_parse parse text of
        Inl e \<Rightarrow> Inl e
      | Inr j \<Rightarrow>
          (case get_prop j ''detail'' of
             Inl e \<Rightarrow> Inl e
           | Inr d \<Rightarrow>
               if truthy d then Inl (Error (value_String d))
               else (case get_prop j ''error'' of
                       Inl e \<Rightarrow> Inl e
                     | Inr r \<Rightarrow>
                         if truthy r then Inl (Error (value_String r))
                         else Inl (Error text))))"

definition res_json :: "parser \<Rightarrow> response \<Rightarrow> js_error + json" where
  "res_json parse res = (case body res of Inl e \<Rightarrow> Inl e | Inr text \<Rightarrow> JSON_parse parse text)"

text \<open>
  The \<open>catch\<close> clause binds nothing and throws
  \<open>new Error(text || `HTTP ${res.status}`)\<close> whatever was caught.
\<close>

definition fetchJson ::
  "env \<Rightarrow> 'w fetch_fn \<Rightarrow> parser \<Rightarrow> string \<Rightarrow> fetch_opts \<Rightarrow> 'w \<Rightarrow> (js_error + json) \<times> 'w" where
  "fetchJson e fetch parse path opts w =
     (case fetch (build_request e path opts) w of
        (Inl err, w') \<Rightarrow> (Inl err, w')
      | (Inr res, w') \<Rightarrow>
          if \<not> ok res then
            (case body res of
               Inl err \<Rightarrow> (Inl err, w')
             | Inr text \<Rightarrow>
                 (case try_block parse text of
                    Inl caught \<Rightarrow> (Inl (Error (or_else (Some text) (''HTTP '' @ show_nat (status res)))), w')
                  | Inr u \<Rightarrow> (res_json parse res, w')))
          else (res_json parse res, w'))"

text \<open>
  The argument of an operation: every operation of the client takes at most one,
  a number (\<open>limit\<close>), a string (\<open>id\<close>, \<open>q\<close>) or nothing.
\<close>

datatype js_arg = NoArg | Num int | Str string

fun arg_String :: "js_arg \<Rightarrow> string" where
  "arg_String NoArg = ''undefined''"
| "arg_String (Num n) = show_int n"
| "arg_String (Str s) = s"

text \<open>A default parameter \<open>(limit = d)\<close> replaces \<open>undefined\<close> only.\<close>

fun default_arg :: "js_arg \<Rightarrow> js_arg \<Rightarrow> js_arg" where
  "default_arg d NoArg = d"
| "default_arg d a = a"

definition uri_unreserved :: "char \<Rightarrow> bool" where
  "uri_unreserved c =
     (c \<in> set ''ABCDEFGHIJKLMNOPQRSTUVWXYZabcdefghijklmnopqrstuvwxyz0123456789-_.!~*()''
      \<or> c = char_of (39 :: nat))"

definition hex_digit :: "nat \<Rightarrow> char" where
  "hex_digit d = (if d < 10 then char_of (48 + d) else char_of (55 + d))"

definition pct_byte :: "nat \<Rightarrow> string" where
  "pct_byte b = [CHR ''%'', hex_digit (b div 16), hex_digit (b mod 16)]"

text \<open>
  \<open>encodeURIComponent\<close> on code units below 256: an unreserved character stays, any
  other is percent-encoded in UTF-8 (one byte below 128, two bytes from 128 on).
\<close>

definition encode_unit :: "char \<Rightarrow> string" where
  "encode_unit c =
     (let n = (of_char c :: nat) in
      if uri_unreserved c then [c]
      else if n < 128 then pct_byte n
      else pct_byte (192 + n div 64) @ pct_byte (128 + n mod 64))"

definition encodeURIComponent :: "js_arg \<Rightarrow> string" where
  "encodeURIComponent a = concat (map encode_unit (arg_String a))"

text \<open>The seven members of the object the module exports.\<close>

datatype api_op =
    FetchArticles
  | GetArticle
  | EnrichArticle
  | EnrichAll
  | FetchLatest
  | EnrichAsync
  | Metrics

definition get_opts :: fetch_opts where
  "get_opts = \<lparr> opt_method = None, opt_headers = None \<rparr>"

definition post_opts :: fetch_opts where
  "post_opts = \<lparr> opt_method = Some POST, opt_headers = None \<rparr>"

text \<open>What each operation passes to \<open>fetchJson\<close>: the path and the options.\<close>

fun api_call :: "api_op \<Rightarrow> js_arg \<Rightarrow> string \<times> fetch_opts" where
  "api_call FetchArticles a = (''/news?limit='' @ arg_String (default_arg (Num 20) a), get_opts)"
| "api_call GetArticle a = (''/news/'' @ arg_String a, get_opts)"
| "api_call EnrichArticle a = (''/news/enrich/'' @ arg_String a, post_opts)"
| "api_call EnrichAll a = (''/news/enrich_all?limit='' @ arg_String (default_arg (Num 5) a), post_opts)"
| "api_call FetchLatest a = (''/news/fetch?q='' @ encodeURIComponent a, get_opts)"
| "api_call EnrichAsync a = (''/news/enrich_async?limit='' @ arg_String (default_arg (Num 5) a), post_opts)"
| "api_call Metrics a = (''/news/metrics'', get_opts)"

definition api ::
  "env \<Rightarrow> 'w fetch_fn \<Rightarrow> parser \<Rightarrow> api_op \<Rightarrow> js_arg \<Rightarrow> 'w \<Rightarrow> (js_error + json) \<times> 'w" where
  "api e fetch parse op a w = fetchJson e fetch parse (fst (api_call op a)) (snd (api_call op a)) w"

definition all_ops :: "api_op list" where
  "all_ops = [FetchArticles, GetArticle, EnrichArticle, EnrichAll, FetchLatest, EnrichAsync, Metrics]"

text \<open>The method and path an operation requests.\<close>

definition endpoint :: "api_op \<Rightarrow> js_arg \<Rightarrow> http_method \<times> string" where
  "endpoint op a =
     (case opt_method (snd (api_call op a)) of None \<Rightarrow> GET | Some m \<Rightarrow> m, fst (api_call op a))"

text \<open>
  The four contract points of the dashboard-facing surface, as the specification lists
  them; the routes are relative to the \<open>/news\<close> router every path of the client starts with.
\<close>

datatype contract_point = EnrichSync | EnrichAsyncJob | JobStatus | MetricsCounts

definition contract_point_of :: "http_method \<times> string \<Rightarrow> contract_point option" where
  "contract_point_of mp =
     (case mp of (m, path) \<Rightarrow>
        if \<not> prefix ''/news/'' path then None
        else let route = drop 6 path in
          if m = POST \<and> prefix ''enrich/'' route then Some EnrichSync
          else if m = POST \<and> prefix ''enrich_async?limit='' route then Some EnrichAsyncJob
          else if m = GET \<and> prefix ''job/'' route then Some JobStatus
          else if m = GET \<and> route = ''metrics'' then Some MetricsCounts
          else None)"

section \<open>The useFetch hook (hooks/useFetch)\<close>

text \<open>
  The hook's state: \<open>data\<close> and \<open>error\<close> start as \<open>null\<close> (\<open>None\<close>), \<open>loading\<close>
  as \<open>immediate\<close>, and the ref \<open>mounted\<close> as \<open>true\<close>.
\<close>

record 'a hook =
  data :: "'a option"
  loading :: bool
  error :: "js_error option"
  mounted :: bool

definition useFetch_init :: "bool \<Rightarrow> 'a hook" where
  "useFetch_init immediate = \<lparr> data = None, loading = immediate, error = None, mounted = True \<rparr>"

text \<open>\<open>call\<close> before the \<open>await\<close>: \<open>setLoading(true); setError(null)\<close>.\<close>

definition call_begin :: "'a hook \<Rightarrow> 'a hook" where
  "call_begin h = h\<lparr> loading := True, error := None \<rparr>"

text \<open>
  \<open>call\<close> after the \<open>await\<close>: the \<open>try\<close> or the \<open>catch\<close> branch, then \<open>finally\<close>;
  each setter runs only if \<open>mounted.current\<close> holds.
\<close>

definition call_settle :: "js_error + 'a \<Rightarrow> 'a hook \<Rightarrow> 'a hook" where
  "call_settle r h =
     (let h1 = (case r of
                  Inr res \<Rightarrow> if mounted h then h\<lparr> data := Some res \<rparr> else h
                | Inl e \<Rightarrow> if mounted h then h\<lparr> error := Some e \<rparr> else h)
      in if mounted h1 then h1\<lparr> loading := False \<rparr> else h1)"

text \<open>
  \<open>call\<close> suspends at \<open>await fn(...args)\<close>. While it is suspended the hook can be
  touched by whatever else runs: another invocation of \<open>call\<close> begins or settles, the
  effect's cleanup clears \<open>mounted.current\<close>, the effect sets it again, or the exposed
  \<open>setData\<close> is called.
\<close>

datatype 'a hook_event =
    Begin
  | Settle "js_error + 'a"
  | Cleanup
  | Effect
  | SetData "'a option"

fun hook_step :: "'a hook_event \<Rightarrow> 'a hook \<Rightarrow> 'a hook" where
  "hook_step Begin h = call_begin h"
| "hook_step (Settle r) h = call_settle r h"
| "hook_step Cleanup h = h\<lparr> mounted := False \<rparr>"
| "hook_step Effect h = h\<lparr> mounted := True \<rparr>"
| "hook_step (SetData v) h = h\<lparr> data := v \<rparr>"

definition hook_run :: "'a hook_event list \<Rightarrow> 'a hook \<Rightarrow> 'a hook" where
  "hook_run evs h = fold hook_step evs h"

text \<open>An event by which another invocation sets \<open>error\<close>, and one that may set \<open>data\<close>.\<close>

fun rejects :: "'a hook_event \<Rightarrow> bool" where
  "rejects (Settle (Inl e)) = True"
| "rejects ev = False"

fun sets_data :: "'a hook_event \<Rightarrow> bool" where
  "sets_data (Settle (Inr v)) = True"
| "sets_data (SetData v) = True"
| "sets_data ev = False"

text \<open>
  One invocation of \<open>call\<close>. \<open>fn\<close> is the wrapped function applied to its arguments;
  \<open>others\<close> is what happens to the hook between the invocation's start and the moment
  its promise settles, in order. The first component is what \<open>call\<close> returns or throws.
\<close>

definition call ::
  "('w \<Rightarrow> (js_error + 'a) \<times> 'w) \<Rightarrow> 'a hook_event list \<Rightarrow> 'a hook \<Rightarrow> 'w
     \<Rightarrow> (js_error + 'a) \<times> 'a hook \<times> 'w" where
  "call fn others h w =
     (case fn w of (r, w') \<Rightarrow> (r, call_settle r (hook_run others (call_begin h)), w'))"

section \<open>The dashboard page (App)\<close>

text \<open>
  The state of \<open>App\<close>: the article hook, the selected article, the metrics, the polling
  flag, and what the page has shown through \<open>alert\<close> and \<open>console.error\<close>.
\<close>

record app =
  articles :: "json hook"
  selected :: "json option"
  metrics :: json
  polling :: bool
  alerts :: "string list"
  console :: "string list"

definition app_init :: app where
  "app_init =
     \<lparr> articles = useFetch_init True,
       selected = None,
       metrics = JObj [(''bias'', JArr []), (''sentiment'', JArr [])],
       polling = False,
       alerts = [],
       console = [] \<rparr>"

text \<open>
  \<open>reloadArticles\<close> is the hook's \<open>call\<close> around \<open>api.fetchArticles(50)\<close>, run here
  with nothing else touching the hook while it is suspended.
\<close>

definition reloadArticles ::
  "env \<Rightarrow> 'w fetch_fn \<Rightarrow> parser \<Rightarrow> app \<Rightarrow> 'w \<Rightarrow> (js_error + json) \<times> app \<times> 'w" where
  "reloadArticles e fetch parse st w =
     (case call (api e fetch parse FetchArticles (Num 50)) [] (articles st) w of
        (r, h, w') \<Rightarrow> (r, st\<lparr> articles := h \<rparr>, w'))"

definition loadMetrics :: "env \<Rightarrow> 'w fetch_fn \<Rightarrow> parser \<Rightarrow> app \<Rightarrow> 'w \<Rightarrow> app \<times> 'w" where
  "loadMetrics e fetch parse st w =
     (case api e fetch parse Metrics NoArg w of
        (Inr m, w') \<Rightarrow> (st\<lparr> metrics := m \<rparr>, w')
      | (Inl err, w') \<Rightarrow> (st\<lparr> console := console st @ [''metrics error '' @ message err] \<rparr>, w'))"

definition handleEnrich ::
  "env \<Rightarrow> 'w fetch_fn \<Rightarrow> parser \<Rightarrow> js_arg \<Rightarrow> app \<Rightarrow> 'w \<Rightarrow> app \<times> 'w" where
  "handleEnrich e fetch parse ident st w =
     (case api e fetch parse EnrichArticle ident w of
        (Inl err, w1) \<Rightarrow> (st\<lparr> alerts := alerts st @ [''Enrich failed: '' @ message err] \<rparr>, w1)
      | (Inr enriched, w1) \<Rightarrow>
          (case reloadArticles e fetch parse st w1 of
             (Inl err, st2, w2) \<Rightarrow>
               (st2\<lparr> alerts := alerts st2 @ [''Enrich failed: '' @ message err] \<rparr>, w2)
           | (Inr reloaded, st2, w2) \<Rightarrow> loadMetrics e fetch parse st2 w2))"

definition handleEnrichAsync ::
  "env \<Rightarrow> 'w fetch_fn \<Rightarrow> parser \<Rightarrow> js_arg \<Rightarrow> app \<Rightarrow> 'w \<Rightarrow> app \<times> 'w" where
  "handleEnrichAsync e fetch parse limit st w =
     (case api e fetch parse EnrichAsync (default_arg (Num 5) limit) w of
        (Inl err, w1) \<Rightarrow>
          (st\<lparr> alerts := alerts st @ [''Failed to queue enrichment: '' @ message err] \<rparr>, w1)
      | (Inr queued, w1) \<Rightarrow> (st\<lparr> polling := True \<rparr>, w1))"

text \<open>
  The effect on \<open>[polling]\<close>: it loads the metrics once and, when \<open>polling\<close> holds, sets
  an interval of 20000 ms whose handler is \<open>reloadArticles(); loadMetrics()\<close>. The two
  requests of a tick are run here in the order the handler starts them.
\<close>

definition poll_interval :: "app \<Rightarrow> nat option" where
  "poll_interval st = (if polling st then Some 20000 else None)"

definition polling_effect ::
  "env \<Rightarrow> 'w fetch_fn \<Rightarrow> parser \<Rightarrow> app \<times> 'w \<Rightarrow> (app \<times> 'w) \<times> nat option" where
  "polling_effect e fetch parse sw =
     (loadMetrics e fetch parse (fst sw) (snd sw), poll_interval (fst sw))"

definition poll_tick :: "env \<Rightarrow> 'w fetch_fn \<Rightarrow> parser \<Rightarrow> app \<times> 'w \<Rightarrow> app \<times> 'w" where
  "poll_tick e fetch parse sw =
     (case sw of (st, w) \<Rightarrow>
        (case reloadArticles e fetch parse st w of
           (r, st1, w1) \<Rightarrow> loadMetrics e fetch parse st1 w1))"

text \<open>
  The page \<open>ms\<close> milliseconds after the effect ran, with \<open>polling\<close> unchanged in
  between: one tick per full interval.
\<close>

definition elapse :: "env \<Rightarrow> 'w fetch_fn \<Rightarrow> parser \<Rightarrow> nat \<Rightarrow> app \<times> 'w \<Rightarrow> app \<times> 'w" where
  "elapse e fetch parse ms sw =
     (case poll_interval (fst sw) of
        None \<Rightarrow> sw
      | Some d \<Rightarrow> ((poll_tick e fetch parse) ^^ (ms div d)) sw)"

text \<open>A network that records every request it is sent.\<close>

definition logged :: "'w fetch_fn \<Rightarrow> ('w \<times> request list) fetch_fn" where
  "logged fetch r wl = (case wl of (w, log) \<Rightarrow> (case fetch r w of (res, w') \<Rightarrow> (res, (w', log @ [r]))))"

text \<open>The method and path of a request that was sent: the URL without the base URL.\<close>

definition request_endpoint :: "env \<Rightarrow> request \<Rightarrow> http_method \<times> string" where
  "request_endpoint e r = (req_method r, drop (length (API_URL e)) (req_url r))"

text \<open>
  A server for running the page on concrete inputs: it answers the first \<open>k\<close> requests
  with status 200 and the others with status 500; the world counts the requests.
\<close>

definition local_env :: env where
  "local_env = \<lparr> VITE_API_URL = None, VITE_API_KEY = None \<rparr>"

definition scripted_fetch :: "nat \<Rightarrow> nat fetch_fn" where
  "scripted_fetch k r n =
     (if n < k then Inr \<lparr> ok = True, status = 200, body = Inr ''[]'' \<rparr>
      else Inr \<lparr> ok = False, status = 500, body = Inr ''Internal Server Error'' \<rparr>,
      Suc n)"

definition stub_parse :: parser where
  "stub_parse s = (if s = ''[]'' then Inr (JArr []) else Inl ''Unexpected token'')"

section \<open>The article card (components/ArticleCard)\<close>

text \<open>The characters U+2026 and U+2014 of the card's texts, in UTF-8.\<close>

definition ellipsis :: string where
  "ellipsis = [char_of (226 :: nat), char_of (128 :: nat), char_of (166 :: nat)]"

definition em_dash :: string where
  "em_dash = [char_of (226 :: nat), char_of (128 :: nat), char_of (148 :: nat)]"

definition nullish :: "js_value \<Rightarrow> bool" where
  "nullish v = (v = Undefined \<or> v = Val JNull)"

text \<open>
  The summary paragraph:
  \<open>article.summary ?? (article.raw_text ? article.raw_text.slice(0, 200) + "..." : "No text available")\<close>.
\<close>

datatype summary_view = Shown js_value | Excerpt string | NoText

definition summary_paragraph :: "json \<Rightarrow> js_error + summary_view" where
  "summary_paragraph a =
     (case get_prop a ''summary'' of
        Inl e \<Rightarrow> Inl e
      | Inr s \<Rightarrow>
          if \<not> nullish s then Inr (Shown s)
          else (case get_prop a ''raw_text'' of
                  Inl e \<Rightarrow> Inl e
                | Inr r \<Rightarrow>
                    if \<not> truthy r then Inr NoText
                    else (case r of
                            Val (JStr t) \<Rightarrow> Inr (Excerpt (take 200 t @ ellipsis))
                          | Val (JArr xs) \<Rightarrow> Inr (Excerpt (js_String (JArr (take 200 xs)) @ ellipsis))
                          | _ \<Rightarrow> Inl (TypeError ''article.raw_text.slice is not a function''))))"

text \<open>
  A badge row entry: \<open>article.f ? badge(article.f) : <span>f: -</span>\<close>.
\<close>

datatype slot = Badge js_value | Placeholder string

definition badge_slot :: "json \<Rightarrow> string \<Rightarrow> js_error + slot" where
  "badge_slot a f =
     (case get_prop a f of
        Inl e \<Rightarrow> Inl e
      | Inr v \<Rightarrow> if truthy v then Inr (Badge v) else Inr (Placeholder (f @ '': '' @ em_dash)))"

record card =
  card_summary :: summary_view
  card_sentiment :: slot
  card_bias :: slot

definition ArticleCard :: "json \<Rightarrow> js_error + card" where
  "ArticleCard a =
     (case summary_paragraph a of
        Inl e \<Rightarrow> Inl e
      | Inr p \<Rightarrow>
          (case badge_slot a ''sentiment'' of
             Inl e \<Rightarrow> Inl e
           | Inr s \<Rightarrow>
               (case badge_slot a ''bias'' of
                  Inl e \<Rightarrow> Inl e
                | Inr b \<Rightarrow> Inr \<lparr> card_summary = p, card_sentiment = s, card_bias = b \<rparr>)))"

section \<open>The analytics panel (components/Dashboard)\<close>

text \<open>
  The counting object \<open>map = {}\<close> is an ordinary object: reading \<open>map[k]\<close> for a key it
  does not own falls through to \<open>Object.prototype\<close>. A member is therefore a number
  (\<open>Count n\<close>) or, when the first read found an inherited member \<open>p\<close>, the text of that
  member followed by \<open>n\<close> characters \<open>1\<close> (\<open>Inherited p n\<close>):
  \<open>(map[k] || 0) + 1\<close> concatenates when \<open>map[k]\<close> is a function, an object or a string.
\<close>

datatype tally = Count nat | Inherited string nat

definition Object_prototype :: "string list" where
  "Object_prototype =
     [''constructor'', ''__defineGetter__'', ''__defineSetter__'', ''hasOwnProperty'',
      ''__lookupGetter__'', ''__lookupSetter__'', ''isPrototypeOf'', ''propertyIsEnumerable'',
      ''toString'', ''valueOf'', ''__proto__'', ''toLocaleString'']"

text \<open>
  \<open>map[k] = (map[k] || 0) + 1\<close>. Assigning a string to \<open>__proto__\<close> goes to the
  inherited setter, which ignores it: no member is created.
\<close>

definition bump :: "(string \<times> tally) list \<Rightarrow> string \<Rightarrow> (string \<times> tally) list" where
  "bump m k =
     (case map_of m k of
        Some (Count n) \<Rightarrow> AList.update k (Count (n + 1)) m
      | Some (Inherited p n) \<Rightarrow> AList.update k (Inherited p (n + 1)) m
      | None \<Rightarrow>
          if k = ''__proto__'' then m
          else if k \<in> set Object_prototype then AList.update k (Inherited k 1) m
          else AList.update k (Count 1) m)"

text \<open>
  \<open>(a.f || fallback).toLowerCase()\<close> (or \<open>toUpperCase\<close>); the case mapping is a
  parameter. A truthy value that is not a string has no such method.
\<close>

definition label_key :: "(string \<Rightarrow> string) \<Rightarrow> string \<Rightarrow> string \<Rightarrow> json \<Rightarrow> js_error + string" where
  "label_key case_map f fallback a =
     (case get_prop a f of
        Inl e \<Rightarrow> Inl e
      | Inr v \<Rightarrow>
          if \<not> truthy v then Inr (case_map fallback)
          else (case v of
                  Val (JStr s) \<Rightarrow> Inr (case_map s)
                | _ \<Rightarrow> Inl (TypeError ''(intermediate value).toLowerCase is not a function'')))"

fun tally_loop ::
  "(json \<Rightarrow> js_error + string) \<Rightarrow> json list \<Rightarrow> (string \<times> tally) list \<Rightarrow> js_error + (string \<times> tally) list" where
  "tally_loop key [] m = Inr m"
| "tally_loop key (a # as) m =
     (case key a of Inl e \<Rightarrow> Inl e | Inr k \<Rightarrow> tally_loop key as (bump m k))"

text \<open>
  \<open>Object.entries\<close>: the members whose key is an array index (a canonical decimal below
  \<open>2^32 - 1\<close>) come first, in ascending order, then the others in insertion order.
\<close>

definition digits_value :: "string \<Rightarrow> int" where
  "digits_value k = foldl (\<lambda>n c. 10 * n + (of_char c - 48)) 0 k"

definition array_index :: "string \<Rightarrow> bool" where
  "array_index k =
     (k \<noteq> [] \<and> list_all (\<lambda>c. c \<in> set ''0123456789'') k
      \<and> (if hd k = CHR ''0'' then k = ''0'' else True)
      \<and> digits_value k < 4294967295)"

definition Object_entries :: "(string \<times> 'v) list \<Rightarrow> (string \<times> 'v) list" where
  "Object_entries m =
     sort_key (\<lambda>kv. digits_value (fst kv)) (filter (\<lambda>kv. array_index (fst kv)) m)
     @ filter (\<lambda>kv. \<not> array_index (fst kv)) m"

text \<open>
  The two memoised distributions; a pair \<open>(name, v)\<close> stands for the object
  \<open>{ name, value }\<close>.
\<close>

definition biasCounts :: "(string \<Rightarrow> string) \<Rightarrow> json list \<Rightarrow> js_error + (string \<times> tally) list" where
  "biasCounts toLowerCase arts =
     (case tally_loop (label_key toLowerCase ''bias'' ''unknown'') arts [] of
        Inl e \<Rightarrow> Inl e
      | Inr m \<Rightarrow> Inr (Object_entries m))"

definition sentimentCounts :: "(string \<Rightarrow> string) \<Rightarrow> json list \<Rightarrow> js_error + (string \<times> tally) list" where
  "sentimentCounts toUpperCase arts =
     (case tally_loop (label_key toUpperCase ''sentiment'' ''UNKNOWN'') arts [] of
        Inl e \<Rightarrow> Inl e
      | Inr m \<Rightarrow> Inr (Object_entries m))"

text \<open>The case mappings on ASCII text, for running the panel on concrete articles.\<close>

definition ascii_lower :: "string \<Rightarrow> string" where
  "ascii_lower s =
     map (\<lambda>c. let n = (of_char c :: nat) in if 65 \<le> n \<and> n \<le> 90 then char_of (n + 32) else c) s"

definition ascii_upper :: "string \<Rightarrow> string" where
  "ascii_upper s =
     map (\<lambda>c. let n = (of_char c :: nat) in if 97 \<le> n \<and> n \<le> 122 then char_of (n - 32) else c) s"

text \<open>The number of articles whose label is \<open>l\<close>.\<close>

definition label_count :: "(json \<Rightarrow> js_error + string) \<Rightarrow> json list \<Rightarrow> string \<Rightarrow> nat" where
  "label_count key arts l = length (filter (\<lambda>a. key a = Inr l) arts)"

text \<open>
  A counting object is sound when no key occurs twice and every member is a positive
  number; \<open>tally_count\<close> reads the number a key holds, zero when it holds none.
\<close>

definition sound_counts :: "(string \<times> tally) list \<Rightarrow> bool" where
  "sound_counts m =
     (distinct (map fst m) \<and> list_all (\<lambda>kv. case snd kv of Count n \<Rightarrow> 0 < n | Inherited p n \<Rightarrow> False) m)"

definition tally_count :: "tally option \<Rightarrow> nat" where
  "tally_count t = (case t of Some (Count n) \<Rightarrow> n | Some (Inherited p n) \<Rightarrow> 0 | None \<Rightarrow> 0)"

section \<open>The enrichment pipeline\<close>

text \<open>
  The service behind the four contract points is not among the sources; the definitions
  of this section follow the specification's sections 3, 4 and 7.
\<close>

subsection \<open>Fingerprint Cache\<close>

text \<open>Modelled from the spec: the task kinds of a CacheKey (summarize, sentiment, bias).\<close>

datatype task_kind = Summarize | Sentiment | Bias

text \<open>
  Modelled from the spec: the CacheKey, an explicit type with defined equality
  (task kind, content fingerprint, parameter set).
\<close>

record cache_key =
  task :: task_kind
  fingerprint :: string
  parameters :: "string list"

text \<open>Modelled from the spec: the CacheEntry, an annotation and its computed-at timestamp.\<close>

record cache_entry =
  annotation :: string
  computed_at :: nat

text \<open>Modelled from the spec: the cache, a list of entries with at most one per CacheKey.\<close>

type_synonym fp_cache = "(cache_key \<times> cache_entry) list"

text \<open>Modelled from the spec: the cache's \<open>get(key) -> entry|absent\<close>.\<close>

definition cache_get :: "fp_cache \<Rightarrow> cache_key \<Rightarrow> cache_entry option" where
  "cache_get c k = map_of c k"

text \<open>
  Modelled from the spec: the cache's \<open>put(key, value)\<close>. Inserting a key with a value
  equal to the one it holds is a no-op; with a different value the newer one replaces
  the entry, so a key never has two entries.
\<close>

definition cache_put :: "cache_key \<Rightarrow> string \<Rightarrow> nat \<Rightarrow> fp_cache \<Rightarrow> fp_cache" where
  "cache_put k v now c =
     (case map_of c k of
        Some en \<Rightarrow>
          if annotation en = v then c
          else AList.update k \<lparr> annotation = v, computed_at = now \<rparr> c
      | None \<Rightarrow> AList.update k \<lparr> annotation = v, computed_at = now \<rparr> c)"

subsection \<open>Inference Client\<close>

text \<open>
  Modelled from the spec: what the upstream provider answers to one request: an
  annotation, a rate-limit response, a transient server response, or a malformed payload.
\<close>

datatype reply = Answer string | RateLimit | Transient | Malformed

text \<open>Modelled from the spec: the typed failures of the Inference Client.\<close>

datatype failure = RateLimited | UpstreamUnavailable | InvalidResponse

text \<open>
  Modelled from the spec: the backoff configuration (base delay, multiplicative growth,
  capped maximum delay, capped maximum attempt count).
\<close>

record retry_cfg =
  base_delay :: nat
  growth :: nat
  max_delay :: nat
  max_attempts :: nat

text \<open>
  Modelled from the spec: what one client call did: its result, the number of upstream
  attempts, the delays it waited between them, and the provider's state afterwards.
\<close>

record 'u call_log =
  outcome :: "failure + string"
  attempts :: nat
  waits :: "nat list"
  upstream_after :: 'u

text \<open>
  Modelled from the spec: the retry loop of a client call. \<open>left\<close> counts the attempts
  still allowed and \<open>delay\<close> is the next wait. A rate-limit or transient response is
  retried after the wait while attempts are left, and surfaces as RateLimited or
  UpstreamUnavailable otherwise; a malformed response is InvalidResponse at once.
\<close>

fun retry_loop :: "retry_cfg \<Rightarrow> ('u \<Rightarrow> reply \<times> 'u) \<Rightarrow> nat \<Rightarrow> nat \<Rightarrow> 'u \<Rightarrow> 'u call_log" where
  "retry_loop cfg send 0 delay u =
     \<lparr> outcome = Inl UpstreamUnavailable, attempts = 0, waits = [], upstream_after = u \<rparr>"
| "retry_loop cfg send (Suc left) delay u =
     (case send u of (r, u') \<Rightarrow>
        (case r of
           Answer v \<Rightarrow> \<lparr> outcome = Inr v, attempts = 1, waits = [], upstream_after = u' \<rparr>
         | Malformed \<Rightarrow>
             \<lparr> outcome = Inl InvalidResponse, attempts = 1, waits = [], upstream_after = u' \<rparr>
         | RateLimit \<Rightarrow>
             if left = 0
             then \<lparr> outcome = Inl RateLimited, attempts = 1, waits = [], upstream_after = u' \<rparr>
             else (let rest = retry_loop cfg send left (min (delay * growth cfg) (max_delay cfg)) u'
                   in rest\<lparr> attempts := Suc (attempts rest), waits := delay # waits rest \<rparr>)
         | Transient \<Rightarrow>
             if left = 0
             then \<lparr> outcome = Inl UpstreamUnavailable, attempts = 1, waits = [], upstream_after = u' \<rparr>
             else (let rest = retry_loop cfg send left (min (delay * growth cfg) (max_delay cfg)) u'
                   in rest\<lparr> attempts := Suc (attempts rest), waits := delay # waits rest \<rparr>)))"

text \<open>
  Modelled from the spec: one Inference Client call (\<open>summarize\<close>, \<open>classifySentiment\<close>,
  \<open>classifyBias\<close>): the retry loop from the base delay with all attempts left.
\<close>

definition infer :: "retry_cfg \<Rightarrow> ('u \<Rightarrow> reply \<times> 'u) \<Rightarrow> 'u \<Rightarrow> 'u call_log" where
  "infer cfg send u = retry_loop cfg send (max_attempts cfg) (min (base_delay cfg) (max_delay cfg)) u"

subsection \<open>Enrichment Engine\<close>

text \<open>
  Modelled from the spec: what the Engine is given: the text normalisation and the stable
  hash of the fingerprint, the candidate labels of the bias task, the backoff
  configuration, and the upstream provider (task kind, text, labels).
\<close>

record 'u engine_cfg =
  normalize :: "string \<Rightarrow> string"
  digest :: "string \<Rightarrow> string"
  bias_labels :: "string list"
  retry :: retry_cfg
  provider :: "task_kind \<Rightarrow> string \<Rightarrow> string list \<Rightarrow> 'u \<Rightarrow> reply \<times> 'u"

text \<open>Modelled from the spec: the part of an Article the pipeline reads.\<close>

record raw_article =
  ident :: nat
  raw_text :: string

text \<open>
  Modelled from the spec: the state the Engine works on: the Fingerprint Cache, the
  annotations saved in the Article Store, the provider's state, and the number of
  upstream calls made so far.
\<close>

record 'u engine =
  cache :: fp_cache
  saved :: "nat \<Rightarrow> task_kind \<Rightarrow> string option"
  upstream :: 'u
  upstream_calls :: nat

text \<open>Modelled from the spec: the parameter set of a task (the label set, for bias).\<close>

definition task_parameters :: "'u engine_cfg \<Rightarrow> task_kind \<Rightarrow> string list" where
  "task_parameters cfg k = (if k = Bias then bias_labels cfg else [])"

text \<open>Modelled from the spec: step 1 of \<open>enrichOne\<close>, the CacheKey of a task.\<close>

definition key_for :: "'u engine_cfg \<Rightarrow> task_kind \<Rightarrow> raw_article \<Rightarrow> cache_key" where
  "key_for cfg k a =
     \<lparr> task = k,
       fingerprint = digest cfg (normalize cfg (raw_text a)),
       parameters = task_parameters cfg k \<rparr>"

text \<open>Modelled from the spec: the Article Store's \<open>saveAnnotations\<close> for one field.\<close>

definition save_annotation ::
  "nat \<Rightarrow> task_kind \<Rightarrow> string \<Rightarrow> (nat \<Rightarrow> task_kind \<Rightarrow> string option) \<Rightarrow> (nat \<Rightarrow> task_kind \<Rightarrow> string option)" where
  "save_annotation i k v s = s(i := (s i)(k \<mapsto> v))"

text \<open>
  Modelled from the spec: steps 2 and 3 of \<open>enrichOne\<close> for one task kind. A cache hit
  uses the cached value with no upstream call. A miss calls the Inference Client; on
  success the value goes into the cache and the Article Store, on failure the typed
  error is the result of this task kind only.
\<close>

definition enrich_task ::
  "'u engine_cfg \<Rightarrow> nat \<Rightarrow> task_kind \<Rightarrow> raw_article \<Rightarrow> 'u engine \<Rightarrow> (failure + string) \<times> 'u engine" where
  "enrich_task cfg now k a st =
     (case cache_get (cache st) (key_for cfg k a) of
        Some en \<Rightarrow> (Inr (annotation en), st)
      | None \<Rightarrow>
          (let r = infer (retry cfg) (provider cfg k (raw_text a) (task_parameters cfg k)) (upstream st);
               st1 = st\<lparr> upstream := upstream_after r,
                         upstream_calls := upstream_calls st + attempts r \<rparr>
           in case outcome r of
                Inl f \<Rightarrow> (Inl f, st1)
              | Inr v \<Rightarrow>
                  (Inr v, st1\<lparr> cache := cache_put (key_for cfg k a) v now (cache st1),
                                saved := save_annotation (ident a) k v (saved st1) \<rparr>)))"

text \<open>
  Modelled from the spec: the AnnotatedArticle, the article with each annotation
  obtained or the error of its task kind.
\<close>

record annotated =
  subject :: raw_article
  summary_result :: "failure + string"
  sentiment_result :: "failure + string"
  bias_result :: "failure + string"

text \<open>Modelled from the spec: \<open>enrichOne\<close>, the three task kinds one after the other.\<close>

definition enrichOne ::
  "'u engine_cfg \<Rightarrow> nat \<Rightarrow> raw_article \<Rightarrow> 'u engine \<Rightarrow> annotated \<times> 'u engine" where
  "enrichOne cfg now a st =
     (case enrich_task cfg now Summarize a st of (s, st1) \<Rightarrow>
      case enrich_task cfg now Sentiment a st1 of (t, st2) \<Rightarrow>
      case enrich_task cfg now Bias a st2 of (b, st3) \<Rightarrow>
        (\<lparr> subject = a, summary_result = s, sentiment_result = t, bias_result = b \<rparr>, st3))"

text \<open>Modelled from the spec: the per-task result an AnnotatedArticle reports for a task kind.\<close>

definition task_result :: "annotated \<Rightarrow> task_kind \<Rightarrow> failure + string" where
  "task_result r k =
     (case k of Summarize \<Rightarrow> summary_result r | Sentiment \<Rightarrow> sentiment_result r
      | Bias \<Rightarrow> bias_result r)"

text \<open>Modelled from the spec: the task kinds \<open>enrichOne\<close> has run before it runs a given one.\<close>

definition earlier :: "task_kind \<Rightarrow> task_kind list" where
  "earlier k =
     (case k of Summarize \<Rightarrow> [] | Sentiment \<Rightarrow> [Summarize] | Bias \<Rightarrow> [Summarize, Sentiment])"

text \<open>
  Modelled from the spec: the Engine's state after the tasks of a list of kinds have
  been run for an article, one after the other.
\<close>

definition run_tasks ::
  "'u engine_cfg \<Rightarrow> nat \<Rightarrow> task_kind list \<Rightarrow> raw_article \<Rightarrow> 'u engine \<Rightarrow> 'u engine" where
  "run_tasks cfg now ks a st = fold (\<lambda>k s. snd (enrich_task cfg now k a s)) ks st"

text \<open>
  Modelled from the spec: the task kinds for which an AnnotatedArticle reports an error,
  in the order \<open>enrichOne\<close> runs them.
\<close>

definition failed_kinds :: "annotated \<Rightarrow> task_kind list" where
  "failed_kinds r = filter (\<lambda>k. isl (task_result r k)) [Summarize, Sentiment, Bias]"

subsection \<open>Job Dispatcher\<close>

text \<open>Modelled from the spec: the per-article status of a Job.\<close>

datatype article_status = Pending | Running | Done | Failed

text \<open>Modelled from the spec: the overall status of a Job (\<open>InProgress\<close> is \<open>running\<close>).\<close>

datatype job_status = Queued | InProgress | Completed | CompletedWithErrors

text \<open>
  Modelled from the spec: the Job: identifier, requested articles with their status,
  overall status, created and completed timestamps, and the cancel-requested mark.
\<close>

record job =
  job_id :: nat
  items :: "(nat \<times> article_status) list"
  overall :: job_status
  created :: nat
  completed :: "nat option"
  cancel_requested :: bool

text \<open>Modelled from the spec: a per-article status is terminal when done or failed.\<close>

definition terminal :: "article_status \<Rightarrow> bool" where
  "terminal s = (s = Done \<or> s = Failed)"

text \<open>Modelled from the spec: the per-article statuses of a Job, in request order.\<close>

definition statuses :: "job \<Rightarrow> article_status list" where
  "statuses j = map snd (items j)"

text \<open>Modelled from the spec: a Job in a completed* state.\<close>

definition finished :: "job \<Rightarrow> bool" where
  "finished j = (overall j = Completed \<or> overall j = CompletedWithErrors)"

text \<open>
  Modelled from the spec: the Job becomes terminal once all per-article statuses are
  done or failed: completed when every one is done, completed_with_errors if any failed.
  Per-article failures are aggregated; the Job does not fail eagerly.
\<close>

definition conclude :: "nat \<Rightarrow> job \<Rightarrow> job" where
  "conclude now j =
     (if list_all terminal (statuses j)
      then j\<lparr> overall := (if list_all (\<lambda>s. s = Done) (statuses j) then Completed
                            else CompletedWithErrors),
               completed := Some now \<rparr>
      else j)"

text \<open>
  Modelled from the spec: \<open>enqueue(articleIDs)\<close>, a queued Job with every article
  pending. A Job requested for no article has all its per-article statuses terminal from
  the start, so it is concluded at once: it is created completed.
\<close>

definition enqueue :: "nat \<Rightarrow> nat list \<Rightarrow> nat \<Rightarrow> job" where
  "enqueue jid ids now =
     conclude now
       \<lparr> job_id = jid, items = map (\<lambda>i. (i, Pending)) ids, overall = Queued,
         created = now, completed = None, cancel_requested = False \<rparr>"

text \<open>
  Modelled from the spec: what happens to a Job: a worker picks up the article at a
  position, a worker reports the outcome of the article it ran, or cancellation is
  requested.
\<close>

datatype event = Pickup nat | Finish nat bool nat | Cancel

text \<open>
  Modelled from the spec: one step of the Dispatcher on a Job. A Job in a completed*
  state is immutable. A pickup turns a pending article to running and the Job to
  running, unless cancellation was requested (workers then pull no new work). A finish
  turns the running article to done or failed and concludes the Job when all are
  terminal.
\<close>

definition step :: "event \<Rightarrow> job \<Rightarrow> job" where
  "step ev j =
     (if finished j then j
      else case ev of
        Pickup i \<Rightarrow>
          if i < length (items j) \<and> snd (items j ! i) = Pending \<and> \<not> cancel_requested j
          then j\<lparr> items := (items j)[i := (fst (items j ! i), Running)], overall := InProgress \<rparr>
          else j
      | Finish i succeeded now \<Rightarrow>
          if i < length (items j) \<and> snd (items j ! i) = Running
          then conclude now
                 (j\<lparr> items := (items j)[i := (fst (items j ! i), if succeeded then Done else Failed)] \<rparr>)
          else j
      | Cancel \<Rightarrow> j\<lparr> cancel_requested := True \<rparr>)"

text \<open>Modelled from the spec: a Job after a sequence of Dispatcher steps.\<close>

definition run :: "event list \<Rightarrow> job \<Rightarrow> job" where
  "run evs j = fold step evs j"

text \<open>
  Modelled from the spec: the order in which statuses may follow each other:
  pending, running, then done or failed; queued, running, then a completed* state.
\<close>

fun article_rank :: "article_status \<Rightarrow> nat" where
  "article_rank Pending = 0"
| "article_rank Running = 1"
| "article_rank Done = 2"
| "article_rank Failed = 2"

text \<open>Modelled from the spec: the rank of an overall status in that order.\<close>

fun job_rank :: "job_status \<Rightarrow> nat" where
  "job_rank Queued = 0"
| "job_rank InProgress = 1"
| "job_rank Completed = 2"
| "job_rank CompletedWithErrors = 2"

text \<open>Modelled from the spec: a status does not regress: it stays, or its rank grows.\<close>

definition article_advance :: "article_status \<Rightarrow> article_status \<Rightarrow> bool" where
  "article_advance s t = (s = t \<or> article_rank s < article_rank t)"

text \<open>Modelled from the spec: the same for the overall status of a Job.\<close>

definition job_advance :: "job_status \<Rightarrow> job_status \<Rightarrow> bool" where
  "job_advance s t = (s = t \<or> job_rank s < job_rank t)"

subsection \<open>Backoff schedule, stub providers and the Job invariant\<close>


text \<open>
  Modelled from the spec: a stub provider that answers the first \<open>n\<close> calls with a
  rate-limit response and every later call with the annotation \<open>v\<close>; its state counts
  the calls.
\<close>

definition limited_then :: "nat \<Rightarrow> string \<Rightarrow> nat \<Rightarrow> reply \<times> nat" where
  "limited_then n v calls = (if calls < n then RateLimit else Answer v, Suc calls)"

text \<open>
  Modelled from the spec: a backoff configuration for running the client on concrete
  inputs: base delay 100, factor 2, delays capped at 500, at most 5 attempts.
\<close>

definition stub_retry :: retry_cfg where
  "stub_retry = \<lparr> base_delay = 100, growth = 2, max_delay = 500, max_attempts = 5 \<rparr>"

text \<open>
  Modelled from the spec: a stub inference provider for running the Engine on concrete
  articles: it answers each task kind with a fixed reply and keeps no state; the text
  is its own normal form and fingerprint.
\<close>

definition stub_cfg :: "(task_kind \<Rightarrow> reply) \<Rightarrow> unit engine_cfg" where
  "stub_cfg answers =
     \<lparr> normalize = (\<lambda>s. s), digest = (\<lambda>s. s),
       bias_labels = [''left'', ''center'', ''right'', ''neutral''],
       retry = stub_retry,
       provider = (\<lambda>k t labels u. (answers k, u)) \<rparr>"

text \<open>Modelled from the spec: a stub whose bias classification returns a malformed payload.\<close>

definition bias_malformed :: "task_kind \<Rightarrow> reply" where
  "bias_malformed k =
     (case k of Summarize \<Rightarrow> Answer ''short'' | Sentiment \<Rightarrow> Answer ''POSITIVE'' | Bias \<Rightarrow> Malformed)"

text \<open>Modelled from the spec: a stub that answers all three task kinds.\<close>

definition all_answered :: "task_kind \<Rightarrow> reply" where
  "all_answered k =
     (case k of Summarize \<Rightarrow> Answer ''short'' | Sentiment \<Rightarrow> Answer ''POSITIVE''
      | Bias \<Rightarrow> Answer ''center'')"

text \<open>Modelled from the spec: the Engine's state before any enrichment.\<close>

definition fresh_engine :: "unit engine" where
  "fresh_engine = \<lparr> cache = [], saved = (\<lambda>i k. None), upstream = (), upstream_calls = 0 \<rparr>"

text \<open>
  Modelled from the spec: what holds of every Job the Dispatcher can reach from a
  request: a queued Job has articles, all of them pending, a running Job has an
  article that is not terminal, a completed Job has only done articles, and a Job
  completed with errors has only terminal articles, one of them failed.
\<close>

definition job_invariant :: "job \<Rightarrow> bool" where
  "job_invariant j =
     ((overall j = Queued \<longrightarrow> statuses j \<noteq> [] \<and> list_all (\<lambda>s. s = Pending) (statuses j))
      \<and> (overall j = InProgress \<longrightarrow> \<not> list_all terminal (statuses j))
      \<and> (overall j = Completed \<longrightarrow> list_all (\<lambda>s. s = Done) (statuses j))
      \<and> (overall j = CompletedWithErrors \<longrightarrow>
            list_all terminal (statuses j) \<and> Failed \<in> set (statuses j)))"

section \<open>Properties of the API client\<close>

lemma or_else_Some: "or_else (Some t) d = (if t = [] then d else t)"
  by (simp add: or_else_def)

lemma try_block_throws: "\<exists>e. try_block parse text = Inl e"
  by (simp add: try_block_def split: sum.splits)

lemma digit_char_digit: "d < 10 \<Longrightarrow> digit_char d \<in> set ''0123456789''"
proof -
  assume "d < 10"
  then have "d \<in> set [0..<10]"
    by simp
  moreover have "list_all (\<lambda>d. digit_char d \<in> set ''0123456789'') [0..<10]"
    by code_simp
  ultimately show ?thesis
    unfolding list_all_iff by blast
qed

lemma show_nat_head: "\<exists>c cs. show_nat n = c # cs \<and> c \<in> set ''0123456789''"
proof (induction n rule: show_nat.induct)
  case (1 n)
  show ?case
  proof (cases "n < 10")
    case True
    then show ?thesis
      using digit_char_digit [of n] by (subst show_nat.simps) simp
  next
    case False
    with 1 obtain c cs where "show_nat (n div 10) = c # cs" "c \<in> set ''0123456789''"
      by blast
    with False show ?thesis
      by (subst show_nat.simps) simp
  qed
qed

lemma show_int_head: "\<exists>c cs. show_int i = c # cs \<and> c \<in> set ''-0123456789''"
proof (cases "i < 0")
  case True
  then show ?thesis by (simp add: show_int_def)
next
  case False
  obtain c cs where "show_nat (nat i) = c # cs" "c \<in> set ''0123456789''"
    using show_nat_head by blast
  with False show ?thesis by (auto simp: show_int_def)
qed

lemma all_ops_complete: "op \<in> set all_ops"
  by (cases op) (simp_all add: all_ops_def)

lemma get_article_number: "contract_point_of (endpoint GetArticle (Num n)) = None"
proof -
  obtain c cs where "show_int n = c # cs" "c \<in> set ''-0123456789''"
    using show_int_head by blast
  then show ?thesis
    by (auto simp: endpoint_def contract_point_of_def get_opts_def)
qed

lemma no_job_status_operation: "\<exists>a. contract_point_of (endpoint op a) \<noteq> Some JobStatus"
proof -
  have "list_all (\<lambda>op. contract_point_of (endpoint op NoArg) \<noteq> Some JobStatus) all_ops"
    by code_simp
  then show ?thesis
    using all_ops_complete [of op] by (auto simp: list_all_iff)
qed

text \<open>
  C1, as stated, fails: \<open>fetchArticles(50)\<close> requests \<open>GET /news?limit=50\<close>, which is none
  of the four contract points, and none of the seven operations, called without an
  argument, requests \<open>GET job/{id}\<close>.
\<close>

theorem api_contract_points_counterexample:
  "endpoint FetchArticles (Num 50) = (GET, ''/news?limit=50'')
   \<and> contract_point_of (endpoint FetchArticles (Num 50)) = None
   \<and> list_all (\<lambda>op. contract_point_of (endpoint op NoArg) \<noteq> Some JobStatus) all_ops"
  by code_simp

text \<open>
  C1, amended: of the seven operations of the API client, \<open>enrichArticle\<close>,
  \<open>enrichAsync\<close> and \<open>metrics\<close> request the contract points \<open>POST enrich/{id}\<close>,
  \<open>POST enrich_async?limit=N\<close> and \<open>GET metrics\<close> whatever their argument;
  \<open>fetchArticles\<close>, \<open>enrichAll\<close> and \<open>fetchLatest\<close> never request a contract point;
  \<open>getArticle\<close> requests \<open>GET /news/{id}\<close>, a contract point only when the id itself
  spells \<open>metrics\<close> or starts with \<open>job/\<close>, and never for a number or a missing id; so no
  operation requests \<open>GET job/{id}\<close> for all its arguments: the client has no operation
  for the job status.
\<close>

theorem api_contract_points:
  "(\<forall>a. contract_point_of (endpoint EnrichArticle a) = Some EnrichSync)
   \<and> (\<forall>a. contract_point_of (endpoint EnrichAsync a) = Some EnrichAsyncJob)
   \<and> (\<forall>a. contract_point_of (endpoint Metrics a) = Some MetricsCounts)
   \<and> (\<forall>a. contract_point_of (endpoint FetchArticles a) = None)
   \<and> (\<forall>a. contract_point_of (endpoint EnrichAll a) = None)
   \<and> (\<forall>a. contract_point_of (endpoint FetchLatest a) = None)
   \<and> (\<forall>s. contract_point_of (endpoint GetArticle (Str s)) =
          (if prefix ''job/'' s then Some JobStatus
           else if s = ''metrics'' then Some MetricsCounts else None))
   \<and> (\<forall>n. contract_point_of (endpoint GetArticle (Num n)) = None)
   \<and> contract_point_of (endpoint GetArticle NoArg) = None
   \<and> (\<forall>op. \<exists>a. contract_point_of (endpoint op a) \<noteq> Some JobStatus)"
proof -
  have sync: "\<forall>a. contract_point_of (endpoint EnrichArticle a) = Some EnrichSync"
    by (simp add: endpoint_def contract_point_of_def post_opts_def)
  have async: "\<forall>a. contract_point_of (endpoint EnrichAsync a) = Some EnrichAsyncJob"
    by (simp add: endpoint_def contract_point_of_def post_opts_def)
  have counts: "\<forall>a. contract_point_of (endpoint Metrics a) = Some MetricsCounts"
    by (simp add: endpoint_def contract_point_of_def get_opts_def)
  have list: "\<forall>a. contract_point_of (endpoint FetchArticles a) = None"
    by (simp add: endpoint_def contract_point_of_def get_opts_def)
  have every: "\<forall>a. contract_point_of (endpoint EnrichAll a) = None"
    by (simp add: endpoint_def contract_point_of_def post_opts_def)
  have latest: "\<forall>a. contract_point_of (endpoint FetchLatest a) = None"
    by (simp add: endpoint_def contract_point_of_def get_opts_def)
  have by_name: "\<forall>s. contract_point_of (endpoint GetArticle (Str s)) =
          (if prefix ''job/'' s then Some JobStatus
           else if s = ''metrics'' then Some MetricsCounts else None)"
    by (simp add: endpoint_def contract_point_of_def get_opts_def)
  have missing: "contract_point_of (endpoint GetArticle NoArg) = None"
    by (simp add: endpoint_def contract_point_of_def get_opts_def)
  show ?thesis
    using sync async counts list every latest by_name missing
      get_article_number no_job_status_operation
    by blast
qed

text \<open>
  C9: when the response has \<open>ok = false\<close> and its body reads as \<open>text\<close>, \<open>fetchJson\<close>
  rejects with an Error whose message is \<open>text\<close>, or \<open>HTTP <status>\<close> when \<open>text\<close> is
  empty, whatever \<open>JSON.parse\<close> makes of the body: the Error built from \<open>detail\<close> or
  \<open>error\<close> inside the \<open>try\<close> block is caught by its own \<open>catch\<close> and replaced.
\<close>

theorem fetchJson_error_message:
  assumes "fetch (build_request e path opts) w = (Inr res, w')"
    and "\<not> ok res"
    and "body res = Inr text"
  shows "fetchJson e fetch parse path opts w =
     (Inl (Error (if text = [] then ''HTTP '' @ show_nat (status res) else text)), w')
    \<and> (\<exists>caught. try_block parse text = Inl caught)"
proof -
  obtain caught where "try_block parse text = Inl caught"
    using try_block_throws by blast
  with assms show ?thesis
    by (simp add: fetchJson_def or_else_Some)
qed

theorem fetchJson_error_message_witness:
  "fetchJson local_env
      (\<lambda>r w. (Inr \<lparr> ok = False, status = 422, body = Inr ''raw body'' \<rparr>, w))
      (\<lambda>s. Inr (JObj [(''detail'', JStr ''unprocessable'')]))
      ''/news/enrich/7'' post_opts ()
     = (Inl (Error ''raw body''), ())
   \<and> try_block (\<lambda>s. Inr (JObj [(''detail'', JStr ''unprocessable'')])) ''raw body''
     = Inl (Error ''unprocessable'')
   \<and> fetchJson local_env
      (\<lambda>r w. (Inr \<lparr> ok = False, status = 404, body = Inr [] \<rparr>, w))
      (\<lambda>s. Inl ''Unexpected end of JSON input'')
      ''/news/7'' get_opts ()
     = (Inl (Error ''HTTP 404''), ())"
proof -
  let ?unprocessable = "\<lparr> ok = False, status = 422, body = Inr ''raw body'' \<rparr>"
  let ?missing = "\<lparr> ok = False, status = 404, body = Inr [] \<rparr>"
  have shown: "show_nat 404 = ''404''"
    by code_simp
  note first = fetchJson_error_message
    [of "\<lambda>r w. (Inr ?unprocessable, w)" local_env "''/news/enrich/7''" post_opts "()"
        ?unprocessable "()" "''raw body''"
        "\<lambda>s. Inr (JObj [(''detail'', JStr ''unprocessable'')])"]
  note second = fetchJson_error_message
    [of "\<lambda>r w. (Inr ?missing, w)" local_env "''/news/7''" get_opts "()"
        ?missing "()" "[]" "\<lambda>s. Inl ''Unexpected end of JSON input''"]
  have thrown: "try_block (\<lambda>s. Inr (JObj [(''detail'', JStr ''unprocessable'')])) ''raw body''
     = Inl (Error ''unprocessable'')"
    by (simp add: try_block_def JSON_parse_def)
  show ?thesis
    using first second thrown shown by simp
qed

section \<open>Properties of the useFetch hook\<close>

lemma hook_run_Nil: "hook_run [] h = h"
  by (simp add: hook_run_def)

lemma hook_run_Cons: "hook_run (ev # evs) h = hook_run evs (hook_step ev h)"
  by (simp add: hook_run_def)

lemma hook_step_error:
  "\<not> rejects ev \<Longrightarrow> error h = None \<Longrightarrow> error (hook_step ev h) = None"
proof (cases ev)
  case (Settle r)
  assume "\<not> rejects ev" and "error h = None"
  with Settle show ?thesis
    by (cases r) (simp_all add: call_settle_def Let_def)
qed (simp_all add: call_begin_def)

lemma hook_run_error:
  "list_all (\<lambda>ev. \<not> rejects ev) evs \<Longrightarrow> error h = None \<Longrightarrow> error (hook_run evs h) = None"
  by (induction evs arbitrary: h) (simp_all add: hook_run_Nil hook_run_Cons hook_step_error)

lemma hook_step_data: "\<not> sets_data ev \<Longrightarrow> data (hook_step ev h) = data h"
proof (cases ev)
  case (Settle r)
  assume "\<not> sets_data ev"
  with Settle show ?thesis
    by (cases r) (simp_all add: call_settle_def Let_def)
qed (simp_all add: call_begin_def)

lemma hook_run_data:
  "list_all (\<lambda>ev. \<not> sets_data ev) evs \<Longrightarrow> data (hook_run evs h) = data h"
  by (induction evs arbitrary: h) (simp_all add: hook_run_Nil hook_run_Cons hook_step_data)

text \<open>
  C10, as stated, fails in its second half. When the wrapped function resolves after the
  component was unmounted, \<open>data\<close> is not set to the result and \<open>loading\<close> stays true.
  And while the component is mounted: when another invocation of \<open>call\<close> rejects during
  the \<open>await\<close> of one that then resolves, \<open>error\<close> ends as that other invocation's error,
  not \<open>null\<close>.
\<close>

theorem call_resolved_counterexample:
  "call (\<lambda>w. (Inr (JStr ''fresh''), w)) [Cleanup] (useFetch_init True) ()
     = (Inr (JStr ''fresh''), \<lparr> data = None, loading = True, error = None, mounted = False \<rparr>, ())
   \<and> call (\<lambda>w. (Inr (JStr ''fresh''), w)) [Begin, Settle (Inl (Error ''HTTP 500''))]
        (useFetch_init True) ()
     = (Inr (JStr ''fresh''),
        \<lparr> data = Some (JStr ''fresh''), loading = False, error = Some (Error ''HTTP 500''),
          mounted = True \<rparr>, ())"
  by (simp add: call_def call_settle_def call_begin_def useFetch_init_def hook_run_def)

text \<open>
  C10, amended: for an invocation of \<open>call\<close> whose promise settles while the component is
  mounted, with \<open>h1\<close> the hook's state at that moment: if the wrapped function rejects
  with \<open>e\<close>, the invocation leaves \<open>data\<close> as it is, sets \<open>error\<close> to \<open>e\<close>, ends with
  \<open>loading\<close> false and re-throws \<open>e\<close>; if it resolves with \<open>v\<close>, it sets \<open>data\<close> to \<open>v\<close>,
  ends with \<open>loading\<close> false, returns \<open>v\<close> and leaves \<open>error\<close> as it is. At that
  moment \<open>error\<close> is \<open>null\<close> unless another invocation rejected during the \<open>await\<close>, and
  \<open>data\<close> is what it was at the start unless another invocation resolved or \<open>setData\<close>
  ran during the \<open>await\<close>.
\<close>

theorem call_outcome:
  "(mounted (hook_run others (call_begin h)) \<and> fn w = (Inl e, w') \<longrightarrow>
      call fn others h w
        = (Inl e, (hook_run others (call_begin h))\<lparr> error := Some e, loading := False \<rparr>, w'))
   \<and> (mounted (hook_run others (call_begin h)) \<and> fn w = (Inr v, w') \<longrightarrow>
      call fn others h w
        = (Inr v, (hook_run others (call_begin h))\<lparr> data := Some v, loading := False \<rparr>, w'))
   \<and> (list_all (\<lambda>ev. \<not> rejects ev) others \<longrightarrow> error (hook_run others (call_begin h)) = None)
   \<and> (list_all (\<lambda>ev. \<not> sets_data ev) others \<longrightarrow> data (hook_run others (call_begin h)) = data h)"
proof -
  have clean: "list_all (\<lambda>ev. \<not> rejects ev) others \<longrightarrow> error (hook_run others (call_begin h)) = None"
    by (simp add: hook_run_error call_begin_def)
  have kept: "list_all (\<lambda>ev. \<not> sets_data ev) others \<longrightarrow> data (hook_run others (call_begin h)) = data h"
    by (simp add: hook_run_data call_begin_def)
  show ?thesis
    using clean kept by (simp add: call_def call_settle_def)
qed

theorem call_outcome_witness:
  "call (\<lambda>w. (Inl (Error ''HTTP 500''), w)) [Begin, Settle (Inr (JStr ''other''))]
       \<lparr> data = Some (JStr ''old''), loading = False, error = None, mounted = True \<rparr> ()
     = (Inl (Error ''HTTP 500''),
        \<lparr> data = Some (JStr ''other''), loading = False, error = Some (Error ''HTTP 500''),
          mounted = True \<rparr>, ())
   \<and> call (\<lambda>w. (Inr (JStr ''new''), w)) []
       \<lparr> data = Some (JStr ''old''), loading = False, error = Some (Error ''earlier''),
         mounted = True \<rparr> ()
     = (Inr (JStr ''new''),
        \<lparr> data = Some (JStr ''new''), loading = False, error = None, mounted = True \<rparr>, ())
   \<and> error (hook_run [Begin, Settle (Inr (JStr ''other''))]
        (call_begin \<lparr> data = Some (JStr ''old''), loading = False, error = None, mounted = True \<rparr>))
     = None
   \<and> data (hook_run []
        (call_begin \<lparr> data = Some (JStr ''old''), loading = False, error = Some (Error ''earlier''),
           mounted = True \<rparr>))
     = Some (JStr ''old'')"
proof -
  let ?h = "\<lparr> data = Some (JStr ''old''), loading = False, error = None, mounted = True \<rparr>"
  let ?k = "\<lparr> data = Some (JStr ''old''), loading = False, error = Some (Error ''earlier''),
              mounted = True \<rparr>"
  note rejected = call_outcome
    [of "[Begin, Settle (Inr (JStr ''other''))]" ?h "\<lambda>w. (Inl (Error ''HTTP 500''), w)" "()"
        "Error ''HTTP 500''" "()" "JStr ''x''"]
  note resolved = call_outcome
    [of "[]" ?k "\<lambda>w. (Inr (JStr ''new''), w)" "()" "Error ''x''" "()" "JStr ''new''"]
  have first: "hook_run [Begin, Settle (Inr (JStr ''other''))] (call_begin ?h)
     = \<lparr> data = Some (JStr ''other''), loading = False, error = None, mounted = True \<rparr>"
    by (simp add: hook_run_def call_begin_def call_settle_def)
  have second: "hook_run [] (call_begin ?k)
     = \<lparr> data = Some (JStr ''old''), loading = True, error = None, mounted = True \<rparr>"
    by (simp add: hook_run_def call_begin_def)
  show ?thesis
    using rejected resolved by (simp add: first second)
qed

section \<open>Properties of the dashboard page\<close>

lemma fetchJson_logged:
  "fetchJson e (logged fetch) parse path opts (w, log) =
     (case fetchJson e fetch parse path opts w of
        (r, w') \<Rightarrow> (r, (w', log @ [build_request e path opts])))"
  by (simp add: fetchJson_def logged_def split: prod.splits sum.splits)

lemma api_logged:
  "api e (logged fetch) parse op a (w, log) =
     (case api e fetch parse op a w of
        (r, w') \<Rightarrow> (r, (w', log @ [build_request e (fst (api_call op a)) (snd (api_call op a))])))"
  by (simp add: api_def fetchJson_logged)

lemma reloadArticles_log:
  "snd (snd (reloadArticles e (logged fetch) parse st (w, log))) =
     (snd (snd (reloadArticles e fetch parse st w)),
      log @ [build_request e ''/news?limit=50'' get_opts])"
proof -
  have "show_int 50 = ''50''" by code_simp
  then show ?thesis
    by (simp add: reloadArticles_def call_def api_logged split: prod.splits)
qed

lemma loadMetrics_log:
  "snd (loadMetrics e (logged fetch) parse st (w, log)) =
     (snd (loadMetrics e fetch parse st w), log @ [build_request e ''/news/metrics'' get_opts])"
  by (simp add: loadMetrics_def api_logged split: prod.splits sum.splits)

lemma poll_tick_log:
  "snd (snd (poll_tick e (logged fetch) parse (st, (w, log)))) =
     log @ [build_request e ''/news?limit=50'' get_opts, build_request e ''/news/metrics'' get_opts]"
proof -
  obtain r st1 w1 where a: "reloadArticles e (logged fetch) parse st (w, log) = (r, st1, w1)"
    by (metis prod_cases3)
  then have "w1 = (snd (snd (reloadArticles e fetch parse st w)),
                   log @ [build_request e ''/news?limit=50'' get_opts])"
    using reloadArticles_log [of e fetch parse st w log] by simp
  then show ?thesis
    using a loadMetrics_log [of e fetch parse st1] by (simp add: poll_tick_def)
qed

lemma reloadArticles_polling: "polling (fst (snd (reloadArticles e fetch parse st w))) = polling st"
  by (simp add: reloadArticles_def split: prod.splits)

lemma loadMetrics_polling: "polling (fst (loadMetrics e fetch parse st w)) = polling st"
  by (simp add: loadMetrics_def split: prod.splits sum.splits)

lemma poll_tick_polling: "polling (fst (poll_tick e fetch parse (st, w))) = polling st"
  using reloadArticles_polling [of e fetch parse st w]
  by (auto simp: poll_tick_def loadMetrics_polling split: prod.splits)

lemma request_endpoint_build:
  "request_endpoint e (build_request e path opts) =
     (case opt_method opts of None \<Rightarrow> GET | Some m \<Rightarrow> m, path)"
  by (simp add: request_endpoint_def build_request_def)

lemma api_scripted_ok:
  "n < k \<Longrightarrow> api local_env (scripted_fetch k) stub_parse op a n = (Inr (JArr []), Suc n)"
  by (simp add: api_def fetchJson_def scripted_fetch_def stub_parse_def res_json_def JSON_parse_def)

lemma api_scripted_fail:
  "\<not> n < k \<Longrightarrow> api local_env (scripted_fetch k) stub_parse op a n
     = (Inl (Error ''Internal Server Error''), Suc n)"
  by (simp add: api_def fetchJson_def scripted_fetch_def stub_parse_def try_block_def
      JSON_parse_def or_else_def)

lemma reload_scripted_ok:
  "n < k \<Longrightarrow> reloadArticles local_env (scripted_fetch k) stub_parse app_init n
     = (Inr (JArr []),
        app_init\<lparr> articles := \<lparr> data = Some (JArr []), loading = False, error = None,
                                mounted = True \<rparr> \<rparr>,
        Suc n)"
  by (simp add: reloadArticles_def call_def call_begin_def call_settle_def hook_run_def
      api_scripted_ok app_init_def useFetch_init_def)

lemma reload_scripted_fail:
  "\<not> n < k \<Longrightarrow> reloadArticles local_env (scripted_fetch k) stub_parse app_init n
     = (Inl (Error ''Internal Server Error''),
        app_init\<lparr> articles := \<lparr> data = None, loading = False,
                       error = Some (Error ''Internal Server Error''), mounted = True \<rparr> \<rparr>,
        Suc n)"
  by (simp add: reloadArticles_def call_def call_begin_def call_settle_def hook_run_def
      api_scripted_fail app_init_def useFetch_init_def)

lemma reloadArticles_alerts:
  "reloadArticles e fetch parse st w = (r, st2, w2) \<Longrightarrow> alerts st2 = alerts st"
  by (auto simp: reloadArticles_def split: prod.splits)

lemma loadMetrics_alerts: "alerts (fst (loadMetrics e fetch parse st w)) = alerts st"
  by (simp add: loadMetrics_def split: prod.splits sum.splits)

text \<open>
  C6, as stated, fails: after a successful \<open>handleEnrichAsync(10)\<close> the polling flag is
  set, and a tick of the interval sends exactly two requests, \<open>GET /news?limit=50\<close> and
  \<open>GET /news/metrics\<close>; neither is the job status \<open>GET job/{id}\<close>.
\<close>

theorem polling_requests_counterexample:
  "map (request_endpoint local_env)
     (snd (snd (poll_tick local_env (logged (scripted_fetch 9)) stub_parse
        (fst (handleEnrichAsync local_env (scripted_fetch 9) stub_parse (Num 10) app_init 0),
         (1, [])))))
     = [(GET, ''/news?limit=50''), (GET, ''/news/metrics'')]
   \<and> polling (fst (handleEnrichAsync local_env (scripted_fetch 9) stub_parse (Num 10) app_init 0))
   \<and> contract_point_of (GET, ''/news?limit=50'') \<noteq> Some JobStatus
   \<and> contract_point_of (GET, ''/news/metrics'') \<noteq> Some JobStatus"
  by (simp add: poll_tick_log request_endpoint_build get_opts_def contract_point_of_def
      handleEnrichAsync_def api_scripted_ok del: One_nat_def)

text \<open>
  C6, amended: when the request of \<open>handleEnrichAsync\<close> succeeds, its response is
  dropped and the polling flag is set; with the flag set the effect keeps an interval of
  20000 ms, so that after \<open>ms\<close> milliseconds \<open>ms div 20000\<close> ticks have run; a tick never
  clears the flag, and it sends exactly the two requests \<open>GET /news?limit=50\<close> (the
  article list) and \<open>GET /news/metrics\<close>, of which only the second is a contract point.
\<close>

theorem enrich_async_polling:
  assumes "api e fetch parse EnrichAsync (default_arg (Num 5) limit) w = (Inr queued, w1)"
  shows "handleEnrichAsync e fetch parse limit st w = (st\<lparr> polling := True \<rparr>, w1)
    \<and> poll_interval (st\<lparr> polling := True \<rparr>) = Some 20000
    \<and> (\<forall>ms v. elapse e fetch parse ms (st\<lparr> polling := True \<rparr>, v)
          = ((poll_tick e fetch parse) ^^ (ms div 20000)) (st\<lparr> polling := True \<rparr>, v))
    \<and> (\<forall>s v. polling (fst (poll_tick e fetch parse (s, v))) = polling s)
    \<and> (\<forall>s v log. snd (snd (poll_tick e (logged fetch) parse (s, (v, log))))
          = log @ [build_request e ''/news?limit=50'' get_opts,
                   build_request e ''/news/metrics'' get_opts])
    \<and> request_endpoint e (build_request e ''/news?limit=50'' get_opts) = (GET, ''/news?limit=50'')
    \<and> request_endpoint e (build_request e ''/news/metrics'' get_opts) = (GET, ''/news/metrics'')
    \<and> contract_point_of (GET, ''/news?limit=50'') = None
    \<and> contract_point_of (GET, ''/news/metrics'') = Some MetricsCounts"
proof -
  have started: "handleEnrichAsync e fetch parse limit st w = (st\<lparr> polling := True \<rparr>, w1)"
    using assms by (simp add: handleEnrichAsync_def)
  have timer: "poll_interval (st\<lparr> polling := True \<rparr>) = Some 20000"
    by (simp add: poll_interval_def)
  have ticks: "\<forall>ms v. elapse e fetch parse ms (st\<lparr> polling := True \<rparr>, v)
          = ((poll_tick e fetch parse) ^^ (ms div 20000)) (st\<lparr> polling := True \<rparr>, v)"
    by (simp add: elapse_def poll_interval_def)
  have points: "contract_point_of (GET, ''/news?limit=50'') = None"
    "contract_point_of (GET, ''/news/metrics'') = Some MetricsCounts"
    by (simp_all add: contract_point_of_def)
  have sent:
    "request_endpoint e (build_request e ''/news?limit=50'' get_opts) = (GET, ''/news?limit=50'')"
    "request_endpoint e (build_request e ''/news/metrics'' get_opts) = (GET, ''/news/metrics'')"
    by (simp_all add: request_endpoint_build get_opts_def)
  show ?thesis
    using started timer ticks points sent
    by (simp add: poll_tick_polling poll_tick_log)
qed

theorem enrich_async_polling_witness:
  "api local_env (scripted_fetch 1) stub_parse EnrichAsync (default_arg (Num 5) (Num 10)) 0
     = (Inr (JArr []), 1)
   \<and> handleEnrichAsync local_env (scripted_fetch 1) stub_parse (Num 10) app_init 0
     = (app_init\<lparr> polling := True \<rparr>, 1)
   \<and> poll_interval (app_init\<lparr> polling := True \<rparr>) = Some 20000"
  using enrich_async_polling
    [of local_env "scripted_fetch 1" stub_parse "Num 10" 0 "JArr []" 1 app_init]
  by (simp add: api_scripted_ok)

text \<open>
  C8, as stated, fails: when the request of \<open>handleEnrich\<close> is answered with status 500,
  the page shows the alert \<open>Enrich failed: Internal Server Error\<close>; and the card of an
  article without a summary shows an excerpt of its raw text, with nothing that marks
  the summary as missing.
\<close>

theorem handleEnrich_alert_counterexample:
  "alerts (fst (handleEnrich local_env (scripted_fetch 0) stub_parse (Num 7) app_init 0))
     = [''Enrich failed: Internal Server Error'']
   \<and> ArticleCard (JObj [(''raw_text'', JStr ''Body'')])
     = Inr \<lparr> card_summary = Excerpt (''Body'' @ ellipsis),
             card_sentiment = Placeholder (''sentiment: '' @ em_dash),
             card_bias = Placeholder (''bias: '' @ em_dash) \<rparr>"
  by (simp add: handleEnrich_def api_scripted_fail app_init_def ArticleCard_def
      summary_paragraph_def badge_slot_def nullish_def)

text \<open>
  C8, amended: on the synchronous path the page shows the alert
  \<open>Enrich failed: <message>\<close> when the enrich request is rejected, and also when the
  reload of the articles after it is rejected; when both succeed it shows no alert, drops
  the response of the enrich request and goes on to load the metrics. An article card
  shows a summary that is present, and, for sentiment and for bias, a badge with the
  field when it is truthy and the placeholder \<open>sentiment: -\<close> or \<open>bias: -\<close> (with a
  dash) when it is missing or falsy.
\<close>

theorem handleEnrich_outcomes:
  "(api e fetch parse EnrichArticle aid w = (Inl err, w1) \<longrightarrow>
      handleEnrich e fetch parse aid st w
        = (st\<lparr> alerts := alerts st @ [''Enrich failed: '' @ message err] \<rparr>, w1))
   \<and> (api e fetch parse EnrichArticle aid w = (Inr enriched, w1)
        \<and> reloadArticles e fetch parse st w1 = (Inl err, st2, w2) \<longrightarrow>
      handleEnrich e fetch parse aid st w
        = (st2\<lparr> alerts := alerts st @ [''Enrich failed: '' @ message err] \<rparr>, w2))
   \<and> (api e fetch parse EnrichArticle aid w = (Inr enriched, w1)
        \<and> reloadArticles e fetch parse st w1 = (Inr reloaded, st2, w2) \<longrightarrow>
      handleEnrich e fetch parse aid st w = loadMetrics e fetch parse st2 w2
      \<and> alerts (fst (handleEnrich e fetch parse aid st w)) = alerts st)
   \<and> (get_prop a ''summary'' = Inr sm \<and> \<not> nullish sm \<longrightarrow>
      summary_paragraph a = Inr (Shown sm))
   \<and> (get_prop a f = Inr v \<longrightarrow>
      badge_slot a f = Inr (if truthy v then Badge v else Placeholder (f @ '': '' @ em_dash)))
   \<and> (ArticleCard a = Inr c \<longrightarrow>
      summary_paragraph a = Inr (card_summary c)
      \<and> badge_slot a ''sentiment'' = Inr (card_sentiment c)
      \<and> badge_slot a ''bias'' = Inr (card_bias c))"
proof -
  have failed: "api e fetch parse EnrichArticle aid w = (Inl err, w1) \<longrightarrow>
      handleEnrich e fetch parse aid st w
        = (st\<lparr> alerts := alerts st @ [''Enrich failed: '' @ message err] \<rparr>, w1)"
    by (simp add: handleEnrich_def)
  have stale: "api e fetch parse EnrichArticle aid w = (Inr enriched, w1)
        \<and> reloadArticles e fetch parse st w1 = (Inl err, st2, w2) \<longrightarrow>
      handleEnrich e fetch parse aid st w
        = (st2\<lparr> alerts := alerts st @ [''Enrich failed: '' @ message err] \<rparr>, w2)"
    using reloadArticles_alerts [of e fetch parse st w1 "Inl err" st2 w2]
    by (auto simp: handleEnrich_def)
  have fresh: "api e fetch parse EnrichArticle aid w = (Inr enriched, w1)
        \<and> reloadArticles e fetch parse st w1 = (Inr reloaded, st2, w2) \<longrightarrow>
      handleEnrich e fetch parse aid st w = loadMetrics e fetch parse st2 w2
      \<and> alerts (fst (handleEnrich e fetch parse aid st w)) = alerts st"
    using reloadArticles_alerts [of e fetch parse st w1 "Inr reloaded" st2 w2]
    by (auto simp: handleEnrich_def loadMetrics_alerts)
  have slot: "get_prop a f = Inr v \<longrightarrow>
      badge_slot a f = Inr (if truthy v then Badge v else Placeholder (f @ '': '' @ em_dash))"
    by (simp add: badge_slot_def)
  have present: "get_prop a ''summary'' = Inr sm \<and> \<not> nullish sm \<longrightarrow>
      summary_paragraph a = Inr (Shown sm)"
    by (simp add: summary_paragraph_def)
  have shown: "ArticleCard a = Inr c \<longrightarrow>
      summary_paragraph a = Inr (card_summary c)
      \<and> badge_slot a ''sentiment'' = Inr (card_sentiment c)
      \<and> badge_slot a ''bias'' = Inr (card_bias c)"
    by (auto simp: ArticleCard_def split: sum.splits)
  show ?thesis
    using failed stale fresh present slot shown by blast
qed

theorem handleEnrich_outcomes_witness:
  "handleEnrich local_env (scripted_fetch 0) stub_parse (Num 7) app_init 0
     = (app_init\<lparr> alerts := [''Enrich failed: Internal Server Error''] \<rparr>, 1)
   \<and> alerts (fst (handleEnrich local_env (scripted_fetch 1) stub_parse (Num 7) app_init 0))
     = [''Enrich failed: Internal Server Error'']
   \<and> alerts (fst (handleEnrich local_env (scripted_fetch 3) stub_parse (Num 7) app_init 0)) = []
   \<and> summary_paragraph (JObj [(''summary'', JStr ''Short''), (''sentiment'', JStr ''POSITIVE'')])
     = Inr (Shown (Val (JStr ''Short'')))
   \<and> badge_slot (JObj [(''summary'', JStr ''Short''), (''sentiment'', JStr ''POSITIVE'')]) ''bias''
     = Inr (Placeholder (''bias: '' @ em_dash))
   \<and> ArticleCard (JObj [(''summary'', JStr ''Short''), (''sentiment'', JStr ''POSITIVE'')])
     = Inr \<lparr> card_summary = Shown (Val (JStr ''Short'')),
             card_sentiment = Badge (Val (JStr ''POSITIVE'')),
             card_bias = Placeholder (''bias: '' @ em_dash) \<rparr>"
proof -
  let ?a = "JObj [(''summary'', JStr ''Short''), (''sentiment'', JStr ''POSITIVE'')]"
  let ?c = "\<lparr> card_summary = Shown (Val (JStr ''Short'')),
             card_sentiment = Badge (Val (JStr ''POSITIVE'')),
             card_bias = Placeholder (''bias: '' @ em_dash) \<rparr>"
  have card: "ArticleCard ?a = Inr ?c"
    by (simp add: ArticleCard_def summary_paragraph_def badge_slot_def nullish_def)
  have absent: "get_prop ?a ''bias'' = Inr Undefined"
    by simp
  note first = handleEnrich_outcomes [where e = local_env and fetch = "scripted_fetch 0"
      and parse = stub_parse and aid = "Num 7" and w = 0 and st = app_init
      and err = "Error ''Internal Server Error''" and ?w1.0 = 1
      and a = ?a and f = "''bias''" and v = Undefined and c = ?c
      and sm = "Val (JStr ''Short'')"]
  note second = handleEnrich_outcomes [where e = local_env and fetch = "scripted_fetch 1"
      and parse = stub_parse and aid = "Num 7" and w = 0 and st = app_init
      and enriched = "JArr []" and ?w1.0 = 1 and err = "Error ''Internal Server Error''"
      and ?st2.0 = "app_init\<lparr> articles := \<lparr> data = None, loading = False,
                       error = Some (Error ''Internal Server Error''), mounted = True \<rparr> \<rparr>"
      and ?w2.0 = 2 and a = ?a and f = "''bias''" and v = Undefined and c = ?c
      and sm = "Val (JStr ''Short'')"]
  note third = handleEnrich_outcomes [where e = local_env and fetch = "scripted_fetch 3"
      and parse = stub_parse and aid = "Num 7" and w = 0 and st = app_init
      and enriched = "JArr []" and ?w1.0 = 1 and reloaded = "JArr []"
      and ?st2.0 = "app_init\<lparr> articles := \<lparr> data = Some (JArr []), loading = False,
                       error = None, mounted = True \<rparr> \<rparr>"
      and ?w2.0 = 2 and a = ?a and f = "''bias''" and v = Undefined and c = ?c
      and sm = "Val (JStr ''Short'')"]
  have one: "handleEnrich local_env (scripted_fetch 0) stub_parse (Num 7) app_init 0
     = (app_init\<lparr> alerts := [''Enrich failed: Internal Server Error''] \<rparr>, 1)"
    using first by (simp add: api_scripted_fail) (simp add: app_init_def)
  have slot: "badge_slot ?a ''bias'' = Inr (Placeholder (''bias: '' @ em_dash))"
    using first absent by simp
  have summary: "summary_paragraph ?a = Inr (Shown (Val (JStr ''Short'')))"
    using first by (simp add: nullish_def)
  have two: "alerts (fst (handleEnrich local_env (scripted_fetch 1) stub_parse (Num 7) app_init 0))
     = [''Enrich failed: Internal Server Error'']"
    using second api_scripted_ok [of 0 1 EnrichArticle "Num 7"] reload_scripted_fail [of 1 1]
    by (simp add: app_init_def)
  have three: "alerts (fst (handleEnrich local_env (scripted_fetch 3) stub_parse (Num 7) app_init 0)) = []"
    using third api_scripted_ok [of 0 3 EnrichArticle "Num 7"] reload_scripted_ok [of 1 3]
    by (simp add: app_init_def loadMetrics_alerts)
  show ?thesis
    using one two three summary slot card by simp
qed

section \<open>Properties of the analytics panel\<close>

lemma sound_counts_lookup:
  "sound_counts m \<Longrightarrow> map_of m k = Some v \<Longrightarrow> \<exists>n. v = Count n \<and> 0 < n"
proof -
  assume s: "sound_counts m" and l: "map_of m k = Some v"
  then have "(k, v) \<in> set m"
    by (simp add: map_of_SomeD)
  then have "case v of Count n \<Rightarrow> 0 < n | Inherited p n \<Rightarrow> False"
    using s by (auto simp: sound_counts_def list_all_iff)
  then show ?thesis
    by (cases v) simp_all
qed

lemma sound_counts_update:
  assumes "sound_counts m" and "0 < n"
  shows "sound_counts (AList.update k (Count n) m)"
proof -
  have "distinct (map fst (AList.update k (Count n) m))"
    using assms by (simp add: sound_counts_def distinct_update)
  moreover have "set (AList.update k (Count n) m) \<subseteq> set m \<union> {(k, Count n)}"
    by (induction m) auto
  ultimately show ?thesis
    using assms by (auto simp: sound_counts_def list_all_iff)
qed

lemma bump_sound:
  assumes "sound_counts m" and "k \<notin> set Object_prototype"
  shows "sound_counts (bump m k)
    \<and> map_of (bump m k) = (map_of m)(k \<mapsto> Count (tally_count (map_of m k) + 1))"
proof (cases "map_of m k")
  case None
  moreover have "k \<noteq> ''__proto__''"
    using assms(2) by (auto simp: Object_prototype_def)
  ultimately show ?thesis
    using assms sound_counts_update [of m 1 k]
    by (simp add: bump_def tally_count_def update_conv')
next
  case (Some v)
  then obtain n where "v = Count n" "0 < n"
    using assms(1) sound_counts_lookup by blast
  with Some show ?thesis
    using assms sound_counts_update [of m "n + 1" k]
    by (simp add: bump_def tally_count_def update_conv')
qed

lemma tally_loop_counts:
  assumes "\<forall>a\<in>set arts. \<exists>k. key a = Inr k \<and> k \<notin> set Object_prototype"
    and "sound_counts m"
  shows "\<exists>m'. tally_loop key arts m = Inr m' \<and> sound_counts m'
    \<and> (\<forall>l. tally_count (map_of m' l) = tally_count (map_of m l) + label_count key arts l)"
  using assms
proof (induction arts arbitrary: m)
  case Nil
  then show ?case by (simp add: label_count_def)
next
  case (Cons a arts)
  then obtain k where k: "key a = Inr k" "k \<notin> set Object_prototype"
    by auto
  have step: "sound_counts (bump m k)"
    "map_of (bump m k) = (map_of m)(k \<mapsto> Count (tally_count (map_of m k) + 1))"
    using bump_sound [OF Cons.prems(2) k(2)] by simp_all
  obtain m' where m': "tally_loop key arts (bump m k) = Inr m'" "sound_counts m'"
    "\<forall>l. tally_count (map_of m' l) = tally_count (map_of (bump m k) l) + label_count key arts l"
    using Cons.IH [OF _ step(1)] Cons.prems(1) by auto
  have "\<forall>l. tally_count (map_of m' l) = tally_count (map_of m l) + label_count key (a # arts) l"
    using m'(3) k(1) by (auto simp: step(2) label_count_def tally_count_def)
  then show ?case
    using m' k(1) by simp
qed

lemma Object_entries_lookup:
  assumes "distinct (map fst m)"
  shows "map_of (Object_entries m) = map_of m"
proof -
  let ?P = "\<lambda>kv. array_index (fst kv)"
  let ?xs = "sort_key (\<lambda>kv. digits_value (fst kv)) (filter ?P m)"
  let ?ys = "filter (\<lambda>kv. \<not> ?P kv) m"
  have inj: "inj_on fst (set m)" and dm: "distinct m"
    using assms by (simp_all add: distinct_map)
  have "distinct (map fst ?xs)"
    using inj dm by (auto simp: distinct_map intro: inj_on_subset)
  moreover have "distinct (map fst ?ys)"
    using inj dm by (auto simp: distinct_map intro: inj_on_subset)
  moreover have "fst ` set ?xs \<inter> fst ` set ?ys = {}"
    by auto
  ultimately have "distinct (map fst (Object_entries m))"
    by (simp add: Object_entries_def)
  moreover have "set (Object_entries m) = set m"
    by (auto simp: Object_entries_def)
  ultimately show ?thesis
    using assms map_of_inject_set by blast
qed

lemma sound_counts_empty: "sound_counts []"
  by (simp add: sound_counts_def)

lemma sound_lookup_count:
  assumes "sound_counts m"
  shows "map_of m l = (if tally_count (map_of m l) = 0 then None else Some (Count (tally_count (map_of m l))))"
proof (cases "map_of m l")
  case None
  then show ?thesis by (simp add: tally_count_def)
next
  case (Some v)
  then obtain n where "v = Count n" "0 < n"
    using assms sound_counts_lookup by blast
  with Some show ?thesis by (simp add: tally_count_def)
qed

lemma entries_counts:
  assumes "\<forall>a\<in>set arts. \<exists>k. key a = Inr k \<and> k \<notin> set Object_prototype"
  shows "\<exists>m. tally_loop key arts [] = Inr m \<and> distinct (map fst (Object_entries m))
    \<and> (\<forall>l. map_of (Object_entries m) l =
          (if label_count key arts l = 0 then None else Some (Count (label_count key arts l))))"
proof -
  obtain m where m: "tally_loop key arts [] = Inr m" "sound_counts m"
    "\<forall>l. tally_count (map_of m l) = tally_count (map_of [] l) + label_count key arts l"
    using tally_loop_counts [OF assms sound_counts_empty] by blast
  have d: "distinct (map fst m)"
    using m(2) by (simp add: sound_counts_def)
  have c: "\<forall>l. tally_count (map_of m l) = label_count key arts l"
    using m(3) by (simp add: tally_count_def)
  have "\<forall>l. map_of (Object_entries m) l =
          (if label_count key arts l = 0 then None else Some (Count (label_count key arts l)))"
    using sound_lookup_count [OF m(2)] c by (metis Object_entries_lookup [OF d])
  moreover have "distinct (map fst (Object_entries m))"
    using d by (auto simp: Object_entries_def distinct_map intro: inj_on_subset)
  ultimately show ?thesis
    using m(1) by blast
qed

text \<open>
  Where no label is the name of a member inherited from \<open>Object.prototype\<close>, the two
  distributions are the counts: each label that occurs is listed once, with the number
  of articles that carry it.
\<close>

lemma biasCounts_counts:
  assumes "\<forall>a\<in>set arts. \<exists>k. label_key lower ''bias'' ''unknown'' a = Inr k \<and> k \<notin> set Object_prototype"
  shows "\<exists>m. biasCounts lower arts = Inr m \<and> distinct (map fst m)
    \<and> (\<forall>l. map_of m l =
          (if label_count (label_key lower ''bias'' ''unknown'') arts l = 0 then None
           else Some (Count (label_count (label_key lower ''bias'' ''unknown'') arts l))))"
  using entries_counts [OF assms] by (auto simp: biasCounts_def)

lemma sentimentCounts_counts:
  assumes "\<forall>a\<in>set arts. \<exists>k. label_key upper ''sentiment'' ''UNKNOWN'' a = Inr k \<and> k \<notin> set Object_prototype"
  shows "\<exists>m. sentimentCounts upper arts = Inr m \<and> distinct (map fst m)
    \<and> (\<forall>l. map_of m l =
          (if label_count (label_key upper ''sentiment'' ''UNKNOWN'') arts l = 0 then None
           else Some (Count (label_count (label_key upper ''sentiment'' ''UNKNOWN'') arts l))))"
  using entries_counts [OF assms] by (auto simp: sentimentCounts_def)

lemma inherited_lowercase:
  "list_all (\<lambda>k. list_ex (\<lambda>c. 97 \<le> (of_char c :: nat) \<and> (of_char c :: nat) \<le> 122) k) Object_prototype"
  by code_simp

lemma ascii_upper_no_lowercase:
  "\<not> list_ex (\<lambda>c. 97 \<le> (of_char c :: nat) \<and> (of_char c :: nat) \<le> 122) (ascii_upper s)"
  by (induction s) (auto simp: ascii_upper_def Let_def)

lemma ascii_upper_not_inherited: "ascii_upper s \<notin> set Object_prototype"
  using inherited_lowercase ascii_upper_no_lowercase [of s]
  by (auto simp: list_all_iff)

lemma inherited_uppercase:
  "list_all (\<lambda>k. k = ''constructor'' \<or> k = ''__proto__''
      \<or> list_ex (\<lambda>c. 65 \<le> (of_char c :: nat) \<and> (of_char c :: nat) \<le> 90) k) Object_prototype"
  by code_simp

lemma ascii_lower_no_uppercase:
  "\<not> list_ex (\<lambda>c. 65 \<le> (of_char c :: nat) \<and> (of_char c :: nat) \<le> 90) (ascii_lower s)"
  by (induction s) (auto simp: ascii_lower_def Let_def)

lemma ascii_lower_inherited:
  "ascii_lower s \<in> set Object_prototype \<Longrightarrow>
     ascii_lower s = ''constructor'' \<or> ascii_lower s = ''__proto__''"
  using inherited_uppercase ascii_lower_no_uppercase [of s]
  by (auto simp: list_all_iff)

lemma sentiment_key_not_inherited:
  "label_key ascii_upper ''sentiment'' ''UNKNOWN'' a = Inr k \<Longrightarrow> k \<notin> set Object_prototype"
  using ascii_upper_not_inherited
  by (auto simp: label_key_def split: sum.splits if_splits js_value.splits json.splits)

text \<open>
  With the case mappings on ASCII text: an upper-cased label never names an inherited
  member, so the sentiment distribution is the count for every list of articles whose
  sentiment is a string or falsy; a lower-cased label names an inherited member only
  when it is \<open>constructor\<close> or \<open>__proto__\<close>.
\<close>

lemma sentimentCounts_ascii:
  assumes "\<forall>a\<in>set arts. \<exists>k. label_key ascii_upper ''sentiment'' ''UNKNOWN'' a = Inr k"
  shows "\<exists>m. sentimentCounts ascii_upper arts = Inr m \<and> distinct (map fst m)
    \<and> (\<forall>l. map_of m l =
          (if label_count (label_key ascii_upper ''sentiment'' ''UNKNOWN'') arts l = 0 then None
           else Some (Count (label_count (label_key ascii_upper ''sentiment'' ''UNKNOWN'') arts l))))"
proof -
  have "\<forall>a\<in>set arts. \<exists>k. label_key ascii_upper ''sentiment'' ''UNKNOWN'' a = Inr k
          \<and> k \<notin> set Object_prototype"
    using assms sentiment_key_not_inherited by blast
  then show ?thesis
    by (rule sentimentCounts_counts)
qed

lemma biasCounts_example:
  "biasCounts ascii_lower
     [JObj [(''bias'', JStr ''Left'')], JObj [(''bias'', JStr ''left'')], JObj [],
      JObj [(''bias'', JNull)], JObj [(''bias'', JStr ''10'')], JObj [(''bias'', JStr ''9'')]]
     = Inr [(''9'', Count 1), (''10'', Count 1), (''left'', Count 2), (''unknown'', Count 2)]"
  by code_simp

text \<open>
  C7 fails on the code for a label that names a member every object inherits: for one
  article whose bias is \<open>constructor\<close> the distribution holds a text (the inherited
  function followed by \<open>1\<close>) where the count 1 should be, and for one whose bias is
  \<open>__proto__\<close> it holds no entry at all.
\<close>

theorem biasCounts_inherited_member:
  "biasCounts ascii_lower [JObj [(''bias'', JStr ''constructor'')]]
     = Inr [(''constructor'', Inherited ''constructor'' 1)]
   \<and> label_count (label_key ascii_lower ''bias'' ''unknown'')
        [JObj [(''bias'', JStr ''constructor'')]] ''constructor'' = 1
   \<and> biasCounts ascii_lower [JObj [(''bias'', JStr ''__proto__'')]] = Inr []
   \<and> label_count (label_key ascii_lower ''bias'' ''unknown'')
        [JObj [(''bias'', JStr ''__proto__'')]] ''__proto__'' = 1"
  by code_simp

section \<open>Properties of the Inference Client\<close>








lemma limited_then_succeeds:
  "n < left \<Longrightarrow> outcome (retry_loop cfg (limited_then (k + n) v) left d k) = Inr v
     \<and> attempts (retry_loop cfg (limited_then (k + n) v) left d k) = Suc n"
proof (induction n arbitrary: left d k)
  case 0
  then obtain m where "left = Suc m" by (cases left) auto
  then show ?case by (simp add: limited_then_def)
next
  case (Suc n)
  then obtain m where m: "left = Suc m" "n < m" by (cases left) auto
  have "outcome (retry_loop cfg (limited_then (Suc k + n) v) m d' (Suc k)) = Inr v
     \<and> attempts (retry_loop cfg (limited_then (Suc k + n) v) m d' (Suc k)) = Suc n" for d'
    using Suc.IH [OF m(2), of "Suc k" d'] by simp
  moreover have "limited_then (k + Suc n) v k = (RateLimit, Suc k)"
    by (simp add: limited_then_def)
  ultimately show ?case
    using m by (simp add: Let_def)
qed

text \<open>
  A provider that is rate-limited on its first \<open>n\<close> calls and answers afterwards is
  answered by the client at attempt \<open>n + 1\<close>, provided \<open>n\<close> is below the attempt cap.
\<close>

lemma infer_eventually_succeeds:
  "n < max_attempts cfg \<Longrightarrow> outcome (infer cfg (limited_then n v) 0) = Inr v
     \<and> attempts (infer cfg (limited_then n v) 0) = Suc n"
  using limited_then_succeeds [of n "max_attempts cfg" cfg 0 v] by (simp add: infer_def)




section \<open>Properties of the Job Dispatcher\<close>

lemma statuses_nth: "i < length (items j) \<Longrightarrow> statuses j ! i = snd (items j ! i)"
  by (simp add: statuses_def)

lemma statuses_length: "length (statuses j) = length (items j)"
  by (simp add: statuses_def)

lemma invariant_enqueue: "job_invariant (enqueue jid ids now)"
proof (cases ids)
  case Nil
  then show ?thesis
    by (simp add: job_invariant_def enqueue_def conclude_def statuses_def)
next
  case (Cons i rest)
  then show ?thesis
    by (simp add: job_invariant_def enqueue_def conclude_def statuses_def terminal_def
        list_all_iff)
qed

lemma invariant_pickup:
  assumes "job_invariant j" and "i < length (items j)"
  shows "job_invariant (j\<lparr> items := (items j)[i := (a, Running)], overall := InProgress \<rparr>)"
proof -
  have "Running \<in> set ((statuses j)[i := Running])"
    using assms(2) by (simp add: set_update_memI statuses_length)
  then have "\<not> list_all terminal ((statuses j)[i := Running])"
    by (auto simp: list_all_iff terminal_def)
  then show ?thesis
    by (simp add: job_invariant_def statuses_def map_update)
qed

lemma invariant_conclude:
  assumes "overall j = InProgress"
  shows "job_invariant (conclude now j)"
proof (cases "list_all terminal (statuses j)")
  case True
  have "Failed \<in> set (statuses j)" if "\<not> list_all (\<lambda>s. s = Done) (statuses j)"
    using that True by (auto simp: list_all_iff terminal_def)
  then show ?thesis
    using True by (auto simp: conclude_def job_invariant_def statuses_def)
next
  case False
  then show ?thesis
    using assms by (simp add: conclude_def job_invariant_def)
qed

lemma invariant_step:
  assumes "job_invariant j"
  shows "job_invariant (step ev j)"
proof (cases "finished j")
  case True
  then show ?thesis
    using assms by (simp add: step_def)
next
  case False
  show ?thesis
  proof (cases ev)
    case (Pickup i)
    then show ?thesis
      using assms False invariant_pickup [OF assms] by (simp add: step_def)
  next
    case (Finish i succeeded now)
    show ?thesis
    proof (cases "i < length (items j) \<and> snd (items j ! i) = Running")
      case True
      then have "Running \<in> set (statuses j)"
        by (metis nth_mem statuses_length statuses_nth)
      then have "\<not> list_all (\<lambda>s. s = Pending) (statuses j)"
        by (auto simp: list_all_iff)
      then have running: "overall j = InProgress"
        using assms False by (cases "overall j") (auto simp: job_invariant_def finished_def)
      let ?j = "j\<lparr> items := (items j)[i := (fst (items j ! i), if succeeded then Done else Failed)] \<rparr>"
      have "overall ?j = InProgress"
        using running by simp
      then have "job_invariant (conclude now ?j)"
        by (rule invariant_conclude)
      then show ?thesis
        using True False Finish by (simp add: step_def)
    next
      case no: False
      then show ?thesis
        using assms False Finish by (auto simp: step_def)
    qed
  next
    case Cancel
    then show ?thesis
      using assms False by (simp add: step_def job_invariant_def statuses_def)
  qed
qed

lemma invariant_run: "job_invariant j \<Longrightarrow> job_invariant (run evs j)"
  unfolding run_def by (induction evs arbitrary: j) (simp_all add: invariant_step)

lemma invariant_facts:
  assumes "job_invariant j"
  shows "(overall j = Completed \<longleftrightarrow> list_all (\<lambda>s. s = Done) (statuses j))
    \<and> (overall j = CompletedWithErrors \<longleftrightarrow>
         list_all terminal (statuses j) \<and> Failed \<in> set (statuses j))
    \<and> (list_all terminal (statuses j) \<longrightarrow> overall j \<noteq> Queued \<and> overall j \<noteq> InProgress)"
proof -
  have done_terminal: "list_all (\<lambda>s. s = Done) (statuses j) \<Longrightarrow> list_all terminal (statuses j)"
    by (auto simp: list_all_iff terminal_def)
  have not_pending: "list_all terminal (statuses j) \<Longrightarrow> statuses j \<noteq> []
      \<Longrightarrow> \<not> list_all (\<lambda>s. s = Pending) (statuses j)"
    by (cases "statuses j") (auto simp: terminal_def)
  have done_not_failed: "list_all (\<lambda>s. s = Done) (statuses j) \<Longrightarrow> Failed \<notin> set (statuses j)"
    by (auto simp: list_all_iff)
  show ?thesis
    using assms done_terminal not_pending done_not_failed
    by (cases "overall j") (auto simp: job_invariant_def)
qed

lemma step_job_advance: "job_advance (overall j) (overall (step ev j))"
  by (cases ev; cases "overall j")
     (auto simp: step_def job_advance_def finished_def conclude_def)

lemma list_all2_update_advance:
  assumes "i < length xs" and "article_advance (xs ! i) s"
  shows "list_all2 article_advance xs (xs[i := s])"
  using assms
  by (auto simp: list_all2_conv_all_nth nth_list_update article_advance_def)

lemma step_article_advance: "list_all2 article_advance (statuses j) (statuses (step ev j))"
proof -
  let ?ss = "map snd (items j)"
  have same: "list_all2 article_advance ?ss ?ss"
    by (simp add: list_all2_conv_all_nth article_advance_def)
  have conclude_same: "statuses (conclude now k) = statuses k" for now k
    by (simp add: conclude_def statuses_def)
  have moved: "list_all2 article_advance ?ss (?ss[i := s])"
    if "i < length (items j)" "article_advance (snd (items j ! i)) s" for i s
    using that list_all2_update_advance [of i ?ss s] by simp
  show ?thesis
  proof (cases ev)
    case (Pickup i)
    then show ?thesis
      using same moved [of i Running]
      by (auto simp: step_def statuses_def map_update article_advance_def)
  next
    case (Finish i succeeded now)
    then show ?thesis
      using same moved [of i Done] moved [of i Failed]
      by (auto simp: step_def conclude_same) (auto simp: statuses_def map_update article_advance_def)
  next
    case Cancel
    then show ?thesis
      using same by (auto simp: step_def statuses_def)
  qed
qed

lemma step_finished: "finished j \<Longrightarrow> step ev j = j"
  by (simp add: step_def)

lemma job_example:
  "overall (run [Pickup 0, Pickup 1, Finish 0 True 5, Pickup 2, Finish 1 False 6, Finish 2 True 7]
      (enqueue 1 [10, 20, 30] 0)) = CompletedWithErrors
   \<and> statuses (run [Pickup 0, Pickup 1, Finish 0 True 5, Pickup 2, Finish 1 False 6, Finish 2 True 7]
      (enqueue 1 [10, 20, 30] 0)) = [Done, Failed, Done]"
  by code_simp

text \<open>
  C2, as stated, fails while a Job is in flight: after the first of two articles has
  failed and before the second is picked up, one per-article status is failed and the
  overall status is still running, not completed_with_errors.
\<close>

theorem job_in_flight_counterexample:
  "overall (run [Pickup 0, Finish 0 False 5] (enqueue 1 [10, 20] 0)) = InProgress
   \<and> statuses (run [Pickup 0, Finish 0 False 5] (enqueue 1 [10, 20] 0)) = [Failed, Pending]"
  by code_simp

text \<open>
  C2, amended: for every Job the Dispatcher reaches from a request: the overall status
  is completed iff every per-article status is done; it is completed_with_errors iff all
  per-article statuses are terminal and at least one is failed; it is not queued or
  running once all per-article statuses are terminal; a step never lets the overall
  status or a per-article status regress; and no step changes a Job in a completed*
  state.
\<close>

theorem job_status_invariants:
  assumes "j = run evs (enqueue jid ids now)"
  shows "(overall j = Completed \<longleftrightarrow> list_all (\<lambda>s. s = Done) (statuses j))
    \<and> (overall j = CompletedWithErrors \<longleftrightarrow>
         list_all terminal (statuses j) \<and> Failed \<in> set (statuses j))
    \<and> (list_all terminal (statuses j) \<longrightarrow> overall j \<noteq> Queued \<and> overall j \<noteq> InProgress)
    \<and> (\<forall>ev. job_advance (overall j) (overall (step ev j)))
    \<and> (\<forall>ev. list_all2 article_advance (statuses j) (statuses (step ev j)))
    \<and> (\<forall>ev. finished j \<longrightarrow> step ev j = j)"
proof -
  have "job_invariant j"
    using assms invariant_enqueue invariant_run by simp
  then show ?thesis
    using invariant_facts [of j] step_job_advance step_article_advance step_finished
    by blast
qed

theorem job_status_invariants_witness:
  "overall (run [Pickup 0, Pickup 1, Finish 0 True 5, Pickup 2, Finish 1 False 6, Finish 2 True 7]
        (enqueue 1 [10, 20, 30] 0)) = CompletedWithErrors
   \<and> list_all terminal (statuses
        (run [Pickup 0, Pickup 1, Finish 0 True 5, Pickup 2, Finish 1 False 6, Finish 2 True 7]
          (enqueue 1 [10, 20, 30] 0)))
   \<and> Failed \<in> set (statuses
        (run [Pickup 0, Pickup 1, Finish 0 True 5, Pickup 2, Finish 1 False 6, Finish 2 True 7]
          (enqueue 1 [10, 20, 30] 0)))
   \<and> overall (run [Pickup 0] (enqueue 2 [] 0)) = Completed
   \<and> step Cancel (run [Pickup 0] (enqueue 2 [] 0)) = run [Pickup 0] (enqueue 2 [] 0)"
proof -
  let ?evs = "[Pickup 0, Pickup 1, Finish 0 True 5, Pickup 2, Finish 1 False 6, Finish 2 True 7]"
  let ?j = "run ?evs (enqueue 1 [10, 20, 30] 0)"
  let ?e = "run [Pickup 0] (enqueue 2 [] 0)"
  note facts = job_status_invariants [OF refl, of ?evs 1 "[10, 20, 30]" 0]
  note none = job_status_invariants [OF refl, of "[Pickup 0]" 2 "[]" 0]
  have ended: "overall ?j = CompletedWithErrors"
    by (rule job_example [THEN conjunct1])
  then have errors: "list_all terminal (statuses ?j) \<and> Failed \<in> set (statuses ?j)"
    using facts by blast
  have "list_all (\<lambda>s. s = Done) (statuses ?e)"
    by code_simp
  then have empty: "overall ?e = Completed"
    using none by blast
  then have "finished ?e"
    by (simp add: finished_def)
  then have "step Cancel ?e = ?e"
    using none by blast
  then show ?thesis
    using ended errors empty by blast
qed

section \<open>Properties of the Fingerprint Cache and the Enrichment Engine\<close>

lemma cache_get_put_same:
  "\<exists>en. cache_get (cache_put k v now c) k = Some en \<and> annotation en = v"
  by (auto simp: cache_get_def cache_put_def update_conv' split: option.splits)

lemma cache_get_put_other:
  "k' \<noteq> k \<Longrightarrow> cache_get (cache_put k v now c) k' = cache_get c k'"
  by (auto simp: cache_get_def cache_put_def update_conv' split: option.splits)

lemma cache_put_twice: "cache_put k v later (cache_put k v now c) = cache_put k v now c"
proof -
  obtain en where "map_of (cache_put k v now c) k = Some en" "annotation en = v"
    using cache_get_put_same [of k v now c] by (auto simp: cache_get_def)
  then show ?thesis
    by (subst cache_put_def) simp
qed

lemma cache_put_distinct: "distinct (map fst c) \<Longrightarrow> distinct (map fst (cache_put k v now c))"
  by (simp add: cache_put_def distinct_update split: option.splits)

lemma enrich_task_hit:
  "cache_get (cache st) (key_for cfg k a) = Some en \<Longrightarrow>
     enrich_task cfg now k a st = (Inr (annotation en), st)"
  by (simp add: enrich_task_def)

lemma enrich_task_cached:
  assumes "enrich_task cfg now k a st = (Inr v, st')"
  shows "\<exists>en. cache_get (cache st') (key_for cfg k a) = Some en \<and> annotation en = v"
proof (cases "cache_get (cache st) (key_for cfg k a)")
  case None
  with assms show ?thesis
    using cache_get_put_same [of "key_for cfg k a" v now "cache st"]
    by (auto simp: enrich_task_def Let_def split: sum.splits)
next
  case (Some en)
  with assms show ?thesis
    by (simp add: enrich_task_def)
qed

lemma enrich_task_keeps:
  assumes "enrich_task cfg now k a st = (x, st')"
    and "cache_get (cache st) key = Some en"
  shows "cache_get (cache st') key = Some en"
proof (cases "cache_get (cache st) (key_for cfg k a)")
  case None
  then have "key \<noteq> key_for cfg k a"
    using assms(2) by auto
  with None assms show ?thesis
    by (auto simp: enrich_task_def Let_def cache_get_put_other split: sum.splits)
next
  case (Some e)
  with assms show ?thesis
    by (simp add: enrich_task_def)
qed

lemma key_for_same_text:
  "normalize cfg (raw_text b) = normalize cfg (raw_text a) \<Longrightarrow> key_for cfg k b = key_for cfg k a"
  by (simp add: key_for_def)



lemma run_tasks_Nil: "run_tasks cfg now [] a st = st"
  by (simp add: run_tasks_def)

lemma run_tasks_Cons:
  "run_tasks cfg now (k # ks) a st = run_tasks cfg now ks a (snd (enrich_task cfg now k a st))"
  by (simp add: run_tasks_def)

lemma run_tasks_append:
  "run_tasks cfg now (ks @ ks') a st = run_tasks cfg now ks' a (run_tasks cfg now ks a st)"
  by (simp add: run_tasks_def)

lemma enrichOne_state:
  "snd (enrichOne cfg now a st) = run_tasks cfg now [Summarize, Sentiment, Bias] a st"
  by (simp add: enrichOne_def run_tasks_def split: prod.splits)

lemma enrichOne_result:
  "task_result (fst (enrichOne cfg now a st)) k
     = fst (enrich_task cfg now k a (run_tasks cfg now (earlier k) a st))"
  by (cases k) (simp_all add: enrichOne_def run_tasks_def task_result_def earlier_def split: prod.splits)

lemma kinds_split:
  "\<exists>rest. [Summarize, Sentiment, Bias] = earlier k @ k # rest \<and> k \<notin> set rest \<and> k \<notin> set (earlier k)"
  by (cases k) (simp_all add: earlier_def)

lemma task_keeps:
  "cache_get (cache st) key = Some en \<Longrightarrow>
     cache_get (cache (snd (enrich_task cfg now k a st))) key = Some en"
  using enrich_task_keeps [of cfg now k a st "fst (enrich_task cfg now k a st)"
      "snd (enrich_task cfg now k a st)" key en]
  by simp

lemma run_tasks_keeps:
  "cache_get (cache st) key = Some en \<Longrightarrow> cache_get (cache (run_tasks cfg now ks a st)) key = Some en"
  by (induction ks arbitrary: st) (simp_all add: run_tasks_Nil run_tasks_Cons task_keeps)





lemma task_of_key: "task (key_for cfg k a) = k"
  by (simp add: key_for_def)

text \<open>An annotation a call of enrichOne obtained is in the cache afterwards.\<close>

lemma obtained_cached:
  assumes "task_result (fst (enrichOne cfg now a st)) k = Inr v"
  shows "\<exists>en. cache_get (cache (snd (enrichOne cfg now a st))) (key_for cfg k a) = Some en
    \<and> annotation en = v"
proof -
  obtain rest where split: "[Summarize, Sentiment, Bias] = earlier k @ k # rest"
    using kinds_split by blast
  let ?u = "run_tasks cfg now (earlier k) a st"
  have "enrich_task cfg now k a ?u = (Inr v, snd (enrich_task cfg now k a ?u))"
    using assms by (simp add: enrichOne_result prod_eq_iff)
  then obtain en where en: "cache_get (cache (snd (enrich_task cfg now k a ?u))) (key_for cfg k a) = Some en"
    "annotation en = v"
    using enrich_task_cached by blast
  have "snd (enrichOne cfg now a st) = run_tasks cfg now rest a (snd (enrich_task cfg now k a ?u))"
    by (simp add: enrichOne_state split run_tasks_append run_tasks_Cons)
  then show ?thesis
    using en run_tasks_keeps by metis
qed

text \<open>A task whose annotation is cached leaves the state alone.\<close>

lemma run_tasks_skip:
  assumes "\<forall>k\<in>set ks. \<not> p k \<longrightarrow> (\<exists>en. cache_get (cache st) (key_for cfg k a) = Some en)"
  shows "run_tasks cfg now ks a st = run_tasks cfg now (filter p ks) a st"
  using assms
proof (induction ks arbitrary: st)
  case Nil
  then show ?case by simp
next
  case (Cons k ks)
  show ?case
  proof (cases "p k")
    case True
    have "\<forall>k'\<in>set ks. \<not> p k' \<longrightarrow>
        (\<exists>en. cache_get (cache (snd (enrich_task cfg now k a st))) (key_for cfg k' a) = Some en)"
      using Cons.prems task_keeps by fastforce
    then show ?thesis
      using True Cons.IH by (simp add: run_tasks_Cons)
  next
    case False
    then obtain en where "cache_get (cache st) (key_for cfg k a) = Some en"
      using Cons.prems by auto
    then have "snd (enrich_task cfg now k a st) = st"
      by (simp add: enrich_task_hit)
    then show ?thesis
      using False Cons.prems Cons.IH [of st] by (simp add: run_tasks_Cons)
  qed
qed







lemma second_call_hit:
  assumes first: "enrichOne cfg now a st = (r, st')"
    and same: "normalize cfg (raw_text b) = normalize cfg (raw_text a)"
    and got: "task_result r k = Inr v"
  shows "\<exists>en. cache_get (cache st') (key_for cfg k b) = Some en \<and> annotation en = v"
  using obtained_cached [of cfg now a st k v] first got key_for_same_text [OF same, of k]
  by simp

lemma second_call_state:
  assumes first: "enrichOne cfg now a st = (r, st')"
    and same: "normalize cfg (raw_text b) = normalize cfg (raw_text a)"
  shows "snd (enrichOne cfg later b st') = run_tasks cfg later (failed_kinds r) b st'"
proof -
  have "\<forall>k\<in>set [Summarize, Sentiment, Bias]. \<not> isl (task_result r k) \<longrightarrow>
      (\<exists>en. cache_get (cache st') (key_for cfg k b) = Some en)"
  proof (intro ballI impI)
    fix k
    assume "\<not> isl (task_result r k)"
    then obtain v where "task_result r k = Inr v"
      by (cases "task_result r k") simp_all
    then show "\<exists>en. cache_get (cache st') (key_for cfg k b) = Some en"
      using second_call_hit [OF first same] by blast
  qed
  then show ?thesis
    unfolding enrichOne_state failed_kinds_def by (rule run_tasks_skip)
qed



lemma bias_malformed_failed:
  "task_result (fst (enrichOne (stub_cfg bias_malformed) 0 \<lparr> ident = 7, raw_text = ''Some text'' \<rparr> fresh_engine)) Summarize = Inr ''short''
   \<and> failed_kinds (fst (enrichOne (stub_cfg bias_malformed) 0 \<lparr> ident = 7, raw_text = ''Some text'' \<rparr> fresh_engine)) = [Bias]"
  by code_simp

lemma all_answered_failed:
  "failed_kinds (fst (enrichOne (stub_cfg all_answered) 0 \<lparr> ident = 7, raw_text = ''Some text'' \<rparr> fresh_engine)) = []
   \<and> upstream_calls (snd (enrichOne (stub_cfg all_answered) 0 \<lparr> ident = 7, raw_text = ''Some text'' \<rparr> fresh_engine)) = 3"
  by code_simp



text \<open>
  C3, as stated, fails when the first enrichment did not obtain every annotation: with a
  provider whose bias classification is malformed, the first call makes three upstream
  calls and a second call for an article with the same text makes one more.
\<close>

theorem enrich_again_counterexample:
  "bias_result (fst (enrichOne (stub_cfg bias_malformed) 0
       \<lparr> ident = 7, raw_text = ''Some text'' \<rparr> fresh_engine)) = Inl InvalidResponse
   \<and> upstream_calls (snd (enrichOne (stub_cfg bias_malformed) 0
       \<lparr> ident = 7, raw_text = ''Some text'' \<rparr> fresh_engine)) = 3
   \<and> upstream_calls (snd (enrichOne (stub_cfg bias_malformed) 1
       \<lparr> ident = 8, raw_text = ''Some text'' \<rparr>
       (snd (enrichOne (stub_cfg bias_malformed) 0
          \<lparr> ident = 7, raw_text = ''Some text'' \<rparr> fresh_engine)))) = 4"
  by code_simp

text \<open>
  C3, amended: after an enrichment of an article, take any article with the same
  normalized text and the same task parameters. For every task kind whose annotation the
  first call obtained, the annotation is in the cache under the second article's key, the
  task of that kind is a cache hit at every state the second call can pass through (it
  returns the identical annotation and leaves the Engine's state, and with it the count
  of upstream calls, as it is), and the second call reports the identical annotation. The
  second call changes the state exactly as running the task kinds that failed in the
  first call does; when none failed it makes no upstream call. In the cache, inserting a
  key again with an equal value changes nothing, and after inserting it with another
  value a lookup gives the newer value.
\<close>

theorem cached_enrichment:
  assumes "enrichOne cfg now a st = (r, st')"
    and "normalize cfg (raw_text b) = normalize cfg (raw_text a)"
  shows "(task_result r K = Inr v \<longrightarrow>
           (\<exists>en. cache_get (cache st') (key_for cfg K b) = Some en \<and> annotation en = v)
           \<and> enrich_task cfg later K b (run_tasks cfg later ks b st')
               = (Inr v, run_tasks cfg later ks b st')
           \<and> task_result (fst (enrichOne cfg later b st')) K = Inr v)
    \<and> snd (enrichOne cfg later b st') = run_tasks cfg later (failed_kinds r) b st'
    \<and> (failed_kinds r = [] \<longrightarrow>
         snd (enrichOne cfg later b st') = st'
         \<and> upstream_calls (snd (enrichOne cfg later b st')) = upstream_calls st')
    \<and> cache_put k v later (cache_put k v now c) = cache_put k v now c
    \<and> (\<exists>en. cache_get (cache_put k v' later (cache_put k v now c)) k = Some en
            \<and> annotation en = v')"
proof -
  have per_kind: "(\<exists>en. cache_get (cache st') (key_for cfg K b) = Some en \<and> annotation en = v)
      \<and> enrich_task cfg later K b (run_tasks cfg later ks b st')
          = (Inr v, run_tasks cfg later ks b st')
      \<and> task_result (fst (enrichOne cfg later b st')) K = Inr v"
    if got: "task_result r K = Inr v"
  proof -
    obtain en where en: "cache_get (cache st') (key_for cfg K b) = Some en" "annotation en = v"
      using second_call_hit [OF assms got] by blast
    have hit: "enrich_task cfg later K b (run_tasks cfg later js b st')
        = (Inr v, run_tasks cfg later js b st')" for js
    proof -
      have "cache_get (cache (run_tasks cfg later js b st')) (key_for cfg K b) = Some en"
        using en(1) by (rule run_tasks_keeps)
      then have "enrich_task cfg later K b (run_tasks cfg later js b st')
          = (Inr (annotation en), run_tasks cfg later js b st')"
        by (rule enrich_task_hit)
      then show ?thesis
        using en(2) by simp
    qed
    have "task_result (fst (enrichOne cfg later b st')) K = Inr v"
      using hit [of "earlier K"] by (simp add: enrichOne_result)
    then show ?thesis
      using en hit by blast
  qed
  have state: "snd (enrichOne cfg later b st') = run_tasks cfg later (failed_kinds r) b st'"
    using assms by (rule second_call_state)
  have none: "snd (enrichOne cfg later b st') = st'
      \<and> upstream_calls (snd (enrichOne cfg later b st')) = upstream_calls st'"
    if "failed_kinds r = []"
    using state that by (simp add: run_tasks_Nil)
  show ?thesis
    using per_kind state none cache_put_twice [of k v later now c]
      cache_get_put_same [of k v' later "cache_put k v now c"]
    by blast
qed

theorem cached_enrichment_witness:
  "normalize (stub_cfg bias_malformed) (raw_text \<lparr> ident = 8, raw_text = ''Some text'' \<rparr>)
     = normalize (stub_cfg bias_malformed) (raw_text \<lparr> ident = 7, raw_text = ''Some text'' \<rparr>)
   \<and> task_result (fst (enrichOne (stub_cfg bias_malformed) 0 \<lparr> ident = 7, raw_text = ''Some text'' \<rparr> fresh_engine)) Summarize = Inr ''short''
   \<and> enrich_task (stub_cfg bias_malformed) 1 Summarize \<lparr> ident = 8, raw_text = ''Some text'' \<rparr>
       (snd (enrichOne (stub_cfg bias_malformed) 0 \<lparr> ident = 7, raw_text = ''Some text'' \<rparr> fresh_engine))
     = (Inr ''short'', snd (enrichOne (stub_cfg bias_malformed) 0 \<lparr> ident = 7, raw_text = ''Some text'' \<rparr> fresh_engine))
   \<and> snd (enrichOne (stub_cfg bias_malformed) 1 \<lparr> ident = 8, raw_text = ''Some text'' \<rparr>
       (snd (enrichOne (stub_cfg bias_malformed) 0 \<lparr> ident = 7, raw_text = ''Some text'' \<rparr> fresh_engine)))
     = run_tasks (stub_cfg bias_malformed) 1 [Bias] \<lparr> ident = 8, raw_text = ''Some text'' \<rparr>
       (snd (enrichOne (stub_cfg bias_malformed) 0 \<lparr> ident = 7, raw_text = ''Some text'' \<rparr> fresh_engine))
   \<and> failed_kinds (fst (enrichOne (stub_cfg all_answered) 0 \<lparr> ident = 7, raw_text = ''Some text'' \<rparr> fresh_engine)) = []
   \<and> upstream_calls (snd (enrichOne (stub_cfg all_answered) 1 \<lparr> ident = 8, raw_text = ''Some text'' \<rparr>
       (snd (enrichOne (stub_cfg all_answered) 0 \<lparr> ident = 7, raw_text = ''Some text'' \<rparr> fresh_engine)))) = 3"
proof -
  let ?a = "\<lparr> ident = 7, raw_text = ''Some text'' \<rparr>"
  let ?b = "\<lparr> ident = 8, raw_text = ''Some text'' \<rparr>"
  let ?cfg = "stub_cfg bias_malformed"
  let ?first = "enrichOne ?cfg 0 ?a fresh_engine"
  let ?all = "stub_cfg all_answered"
  let ?full = "enrichOne ?all 0 ?a fresh_engine"
  have ran: "?first = (fst ?first, snd ?first)"
    by simp
  have same: "normalize ?cfg (raw_text ?b) = normalize ?cfg (raw_text ?a)"
    by simp
  have got: "task_result (fst ?first) Summarize = Inr ''short''"
    and failed: "failed_kinds (fst ?first) = [Bias]"
    using bias_malformed_failed by blast+
  note partly = cached_enrichment [OF ran same, where K = Summarize and v = "''short''"
      and later = 1 and ks = "[]"]
  have hit: "enrich_task ?cfg 1 Summarize ?b (run_tasks ?cfg 1 [] ?b (snd ?first))
      = (Inr ''short'', run_tasks ?cfg 1 [] ?b (snd ?first))"
    using partly got by blast
  have one: "enrich_task ?cfg 1 Summarize ?b (snd ?first) = (Inr ''short'', snd ?first)"
    using hit by (simp only: run_tasks_Nil)
  have "snd (enrichOne ?cfg 1 ?b (snd ?first)) = run_tasks ?cfg 1 (failed_kinds (fst ?first)) ?b (snd ?first)"
    using partly by blast
  then have two: "snd (enrichOne ?cfg 1 ?b (snd ?first)) = run_tasks ?cfg 1 [Bias] ?b (snd ?first)"
    by (simp only: failed)
  have ran': "?full = (fst ?full, snd ?full)"
    by simp
  have same': "normalize ?all (raw_text ?b) = normalize ?all (raw_text ?a)"
    by simp
  have none: "failed_kinds (fst ?full) = []" and calls: "upstream_calls (snd ?full) = 3"
    using all_answered_failed by blast+
  note fully = cached_enrichment [OF ran' same', where later = 1]
  have "upstream_calls (snd (enrichOne ?all 1 ?b (snd ?full))) = upstream_calls (snd ?full)"
    using fully none by blast
  then have three: "upstream_calls (snd (enrichOne ?all 1 ?b (snd ?full))) = 3"
    by (simp only: calls)
  show ?thesis
    using same got one two none three by blast
qed




end
